theory Spec2Isabelle
  imports Main "HOL-Library.Word"
begin

unbundle bit_operations_syntax

section \<open>Python values and exceptions\<close>

text \<open>
  Python integers are unbounded and are modelled as \<open>int\<close>; a byte is an \<open>8 word\<close>.
  A dict with string keys (a decoded item, a character-select entry) is an association
  list of Python values. Every exception the modelled code can raise is a value of
  \<open>py_exception\<close>.
\<close>

type_synonym byte = "8 word"

datatype py_value = IntV int | StrV string | BoolV bool | NoneV

type_synonym py_dict = "(string \<times> py_value) list"

datatype py_exception =
    ValueError
  | TimeoutError
  | StructError
  | InvalidStateError
  | CancelledError
  | OSError

section \<open>state.py: the game state and its packet handlers\<close>

text \<open>
  The enumerations live in \<open>enums.py\<close>. \<open>GameStage\<close> and \<open>MirDirection\<close> are given the
  members the modules at hand refer to (\<open>GameStage.NONE/LOGIN/SELECT/GAME\<close> in state.py
  and client.py; the eight keys of \<open>_DIR_OFFSETS\<close> in client.py). \<open>MirClass\<close> and
  \<open>MirGender\<close> members are kept as their numeric value.
\<close>

datatype GameStage = NONE | LOGIN | SELECT | GAME

datatype MirDirection = Up | UpRight | Right | DownRight | Down | DownLeft | Left | UpLeft

text \<open>
  \<open>ObjectInfo\<close> (state.py, lines 19-28). Field names carry the prefix \<open>o_\<close> because
  \<open>GameState\<close> has fields of the same names.
\<close>

record ObjectInfo =
  o_object_id :: int
  o_name :: string
  o_location :: "int \<times> int"
  o_direction :: int
  o_dead :: bool
  o_extras :: "string \<rightharpoonup> int"

text \<open>\<open>GameState\<close> (state.py, lines 31-80), field by field.\<close>

record GameState =
  stage :: GameStage
  object_id :: int
  name :: string
  level :: int
  class_ :: int
  gender :: int
  location :: "int \<times> int"
  direction :: MirDirection
  hp :: int
  mp :: int
  max_hp :: int
  max_mp :: int
  experience :: int
  max_experience :: int
  gold :: int
  credit :: int
  dead :: bool
  map_index :: int
  map_title :: string
  map_file :: string
  inventory :: "py_dict option list"
  equipment :: "py_dict option list"
  magics :: "py_dict list"
  item_infos :: "int \<rightharpoonup> py_dict"
  players :: "int \<rightharpoonup> ObjectInfo"
  monsters :: "int \<rightharpoonup> ObjectInfo"
  npcs :: "int \<rightharpoonup> ObjectInfo"
  ground_items :: "int \<rightharpoonup> ObjectInfo"
  buffs :: "int \<rightharpoonup> py_dict"
  characters :: "py_dict list"
  npc_page :: "string list"

subsection \<open>The decoded server packets the handlers read\<close>

text \<open>
  One record per packet class of packets.py, with the attributes \<open>read_packet\<close> assigns.
  Field names are prefixed with the packet's initials, since several classes share
  attribute names.
\<close>

record S_GainedGold =
  gg_gold :: int

record S_LoseGold =
  lg_gold :: int

record S_ObjectTurn =
  ot_object_id :: int
  ot_location :: "int \<times> int"
  ot_direction :: int

record S_ObjectWalk =
  ow_object_id :: int
  ow_location :: "int \<times> int"
  ow_direction :: int

record S_ObjectRun =
  or_object_id :: int
  or_location :: "int \<times> int"
  or_direction :: int

record S_MapChanged =
  mc_map_index :: int
  mc_file_name :: string
  mc_title :: string
  mc_mini_map :: int
  mc_big_map :: int
  mc_lights :: int
  mc_location :: "int \<times> int"
  mc_direction :: int
  mc_map_dark_light :: int
  mc_music :: int
  mc_weather :: int

record S_LogOutSuccess =
  lo_characters :: "py_dict list"

subsection \<open>Gold\<close>

text \<open>
  \<^verbatim>\<open>def on_gained_gold(pkt): state.gold += pkt.gold\<close>
  \<^verbatim>\<open>def on_lose_gold(pkt): state.gold = max(0, state.gold - pkt.gold)\<close>
\<close>

definition on_gained_gold :: "GameState \<Rightarrow> S_GainedGold \<Rightarrow> GameState" where
  "on_gained_gold state pkt = state\<lparr>gold := gold state + gg_gold pkt\<rparr>"

definition on_lose_gold :: "GameState \<Rightarrow> S_LoseGold \<Rightarrow> GameState" where
  "on_lose_gold state pkt = state\<lparr>gold := max 0 (gold state - lg_gold pkt)\<rparr>"

subsection \<open>Position updates of nearby objects\<close>

text \<open>
  \<open>_update_object_pos\<close> loops over the tuple \<open>(state.players, state.monsters, state.npcs)\<close>,
  looks the id up with \<open>dict.get\<close> and, at the first table that has it, assigns location
  and direction and returns. The test \<open>if obj:\<close> is the test for a found entry: an
  \<open>ObjectInfo\<close> instance is always truthy and \<open>get\<close> gives \<open>None\<close> for a missing key.
  Every entry of a table is an \<open>ObjectInfo\<close> built afresh by the handler that inserted
  it, so no object is shared between tables and the tables are maps of values.
\<close>

datatype table = Players | Monsters | Npcs | GroundItems

fun get_table :: "table \<Rightarrow> GameState \<Rightarrow> (int \<rightharpoonup> ObjectInfo)" where
  "get_table Players st = players st"
| "get_table Monsters st = monsters st"
| "get_table Npcs st = npcs st"
| "get_table GroundItems st = ground_items st"

fun set_table :: "table \<Rightarrow> (int \<rightharpoonup> ObjectInfo) \<Rightarrow> GameState \<Rightarrow> GameState" where
  "set_table Players m st = st\<lparr>players := m\<rparr>"
| "set_table Monsters m st = st\<lparr>monsters := m\<rparr>"
| "set_table Npcs m st = st\<lparr>npcs := m\<rparr>"
| "set_table GroundItems m st = st\<lparr>ground_items := m\<rparr>"

definition moved :: "ObjectInfo \<Rightarrow> int \<times> int \<Rightarrow> int \<Rightarrow> ObjectInfo" where
  "moved obj loc dir = obj\<lparr>o_location := loc, o_direction := dir\<rparr>"

fun update_in_tables ::
  "table list \<Rightarrow> GameState \<Rightarrow> int \<Rightarrow> int \<times> int \<Rightarrow> int \<Rightarrow> GameState" where
  "update_in_tables [] st oid loc dir = st"
| "update_in_tables (t # ts) st oid loc dir =
     (case get_table t st oid of
        Some obj \<Rightarrow> set_table t ((get_table t st)(oid \<mapsto> moved obj loc dir)) st
      | None \<Rightarrow> update_in_tables ts st oid loc dir)"

definition update_object_pos :: "GameState \<Rightarrow> int \<Rightarrow> int \<times> int \<Rightarrow> int \<Rightarrow> GameState" where
  "update_object_pos st oid loc dir = update_in_tables [Players, Monsters, Npcs] st oid loc dir"

definition on_object_turn :: "GameState \<Rightarrow> S_ObjectTurn \<Rightarrow> GameState" where
  "on_object_turn st pkt =
     update_object_pos st (ot_object_id pkt) (ot_location pkt) (ot_direction pkt)"

definition on_object_walk :: "GameState \<Rightarrow> S_ObjectWalk \<Rightarrow> GameState" where
  "on_object_walk st pkt =
     update_object_pos st (ow_object_id pkt) (ow_location pkt) (ow_direction pkt)"

definition on_object_run :: "GameState \<Rightarrow> S_ObjectRun \<Rightarrow> GameState" where
  "on_object_run st pkt =
     update_object_pos st (or_object_id pkt) (or_location pkt) (or_direction pkt)"

subsection \<open>Map change and logout\<close>

text \<open>
  \<open>MirDirection(x)\<close> is the call of the enumeration class on a number: it gives the
  member whose value is \<open>x\<close> and raises \<open>ValueError\<close> when there is none. The handlers
  take this lookup as the parameter \<open>mir_direction\<close> (\<open>None\<close> stands for the raise),
  since the numbering is declared in enums.py. \<open>MirDirection_of\<close> is the numbering
  client.py relies on (\<open>calc_direction\<close>: index 0 is Up, 1 is UpRight, ..., 7 is UpLeft).

  \<open>on_map_changed\<close> assigns, in this order, map index, file name, title, location and
  direction, and then clears the four tables. A handler that raises stops at the
  raising statement; the assignments before it stay, and the receive loop logs the
  exception. The result is the state left behind and the exception, if any.
\<close>

definition MirDirection_of :: "int \<Rightarrow> MirDirection option" where
  "MirDirection_of x =
     (if x = 0 then Some Up else if x = 1 then Some UpRight
      else if x = 2 then Some Right else if x = 3 then Some DownRight
      else if x = 4 then Some Down else if x = 5 then Some DownLeft
      else if x = 6 then Some Left else if x = 7 then Some UpLeft
      else None)"

definition on_map_changed ::
  "(int \<Rightarrow> MirDirection option) \<Rightarrow> GameState \<Rightarrow> S_MapChanged
     \<Rightarrow> GameState \<times> py_exception option" where
  "on_map_changed mir_direction state pkt =
     (let s1 = state\<lparr>map_index := mc_map_index pkt\<rparr>;
          s2 = s1\<lparr>map_file := mc_file_name pkt\<rparr>;
          s3 = s2\<lparr>map_title := mc_title pkt\<rparr>;
          s4 = s3\<lparr>location := mc_location pkt\<rparr>
      in case mir_direction (mc_direction pkt) of
           None \<Rightarrow> (s4, Some ValueError)
         | Some d \<Rightarrow>
             (s4\<lparr>direction := d, players := Map.empty, monsters := Map.empty,
                 npcs := Map.empty, ground_items := Map.empty\<rparr>, None))"

definition on_logout_success :: "GameState \<Rightarrow> S_LogOutSuccess \<Rightarrow> GameState" where
  "on_logout_success state pkt =
     state\<lparr>characters := lo_characters pkt, stage := SELECT,
           players := Map.empty, monsters := Map.empty,
           npcs := Map.empty, ground_items := Map.empty\<rparr>"

section \<open>codec.py: the 7-bit encoded integer\<close>

text \<open>
  \<open>BinaryReader\<close> reads from a byte stream; the model passes the unread bytes and returns
  the bytes left. \<open>read_byte\<close> at the end of the stream hands \<open>struct.unpack\<close> an empty
  buffer, which raises \<open>struct.error\<close>.
\<close>

definition read_byte :: "byte list \<Rightarrow> py_exception + (int \<times> byte list)" where
  "read_byte stream = (case stream of [] \<Rightarrow> Inl StructError | b # rest \<Rightarrow> Inr (uint b, rest))"

text \<open>
  \<open>_read_7bit_int\<close>: the \<open>while True\<close> loop with its two variables \<open>result\<close> and
  \<open>shift\<close>. Each round consumes one byte, so the recursion is on the stream, with the
  two cases of \<open>read_byte\<close> as its patterns (lemma \<open>read_7bit_loop_read_byte\<close>).
\<close>

fun read_7bit_loop :: "byte list \<Rightarrow> int \<Rightarrow> nat \<Rightarrow> py_exception + (int \<times> byte list)" where
  "read_7bit_loop [] result shift = Inl StructError"
| "read_7bit_loop (b # rest) result shift =
     (let result' = result OR push_bit shift (uint b AND 0x7F)
      in if uint b AND 0x80 = 0 then Inr (result', rest)
         else read_7bit_loop rest result' (shift + 7))"

definition read_7bit_int :: "byte list \<Rightarrow> py_exception + (int \<times> byte list)" where
  "read_7bit_int stream = read_7bit_loop stream 0 0"

text \<open>
  \<open>_encode_7bit_int\<close>: the \<open>while value >= 0x80\<close> loop appending to \<open>result\<close>, then the
  last append. \<open>bytearray.append\<close> takes a number in 0..255, which both appended
  expressions are.
\<close>

function encode_7bit_loop :: "int \<Rightarrow> byte list \<Rightarrow> byte list" where
  "encode_7bit_loop v result =
     (if v \<ge> 0x80
      then encode_7bit_loop (drop_bit 7 v) (result @ [word_of_int ((v AND 0x7F) OR 0x80)])
      else result @ [word_of_int (v AND 0x7F)])"
  by pat_completeness auto
termination
proof (relation "measure (\<lambda>(v, result). nat v)")
  show "wf (measure (\<lambda>(v, result). nat v))" by simp
next
  fix v :: int and result :: "byte list"
  assume "128 \<le> v"
  then have "v div 128 < v" by simp
  then show "((drop_bit 7 v, result @ [word_of_int ((v AND 0x7F) OR 0x80)]), (v, result))
               \<in> measure (\<lambda>(v, result). nat v)"
    using \<open>128 \<le> v\<close> by (simp add: drop_bit_eq_div)
qed

definition encode_7bit_int :: "int \<Rightarrow> byte list" where
  "encode_7bit_int v = encode_7bit_loop v []"

text \<open>
  The well-formed byte sequences: every byte but the last has the continuation flag,
  the last has not. \<open>minimal_7bit\<close> adds that the sequence has no
  superfluous trailing group: a sequence of more than one byte does not end in a
  zero byte.
\<close>

fun valid_7bit :: "byte list \<Rightarrow> bool" where
  "valid_7bit [] = False"
| "valid_7bit [b] = (uint b AND 0x80 = 0)"
| "valid_7bit (b # c # rest) = (uint b AND 0x80 \<noteq> 0 \<and> valid_7bit (c # rest))"

fun minimal_7bit :: "byte list \<Rightarrow> bool" where
  "minimal_7bit [] = False"
| "minimal_7bit [b] = (uint b AND 0x80 = 0)"
| "minimal_7bit [b, c] = (uint b AND 0x80 \<noteq> 0 \<and> uint c AND 0x80 = 0 \<and> c \<noteq> 0)"
| "minimal_7bit (b # c # d # rest) = (uint b AND 0x80 \<noteq> 0 \<and> minimal_7bit (c # d # rest))"

section \<open>packets.py: the catalogue of server packets\<close>

text \<open>
  \<open>_SERVER_PACKETS\<close> maps a packet id to a packet class; a class has the attribute
  \<open>compressed\<close> and the method \<open>read_packet\<close>, which fills a fresh instance from the
  payload or raises. The catalogue and \<open>gzip.decompress\<close> are parameters of
  \<open>parse_server_packet\<close>; \<open>'p\<close> is the type of decoded packets.
\<close>

record 'p packet_class =
  compressed :: bool
  read_packet :: "byte list \<Rightarrow> py_exception + 'p"

definition parse_server_packet ::
  "(int \<rightharpoonup> 'p packet_class) \<Rightarrow> (byte list \<Rightarrow> py_exception + byte list)
     \<Rightarrow> int \<Rightarrow> byte list \<Rightarrow> py_exception + 'p option" where
  "parse_server_packet server_packets gzip_decompress packet_id data =
     (case server_packets packet_id of
        None \<Rightarrow> Inr None
      | Some cls \<Rightarrow>
          (case (if compressed cls then gzip_decompress data else Inr data) of
             Inl e \<Rightarrow> Inl e
           | Inr data' \<Rightarrow>
               (case read_packet cls data' of
                  Inl e \<Rightarrow> Inl e
                | Inr pkt \<Rightarrow> Inr (Some pkt))))"

section \<open>connection.py: registration, the receive loop, disconnect\<close>

text \<open>
  A callback is known by its identity \<open>'cb\<close>. A background task is in one of three
  states: still running, returned, or cancelled. Both loop bodies catch every
  \<open>Exception\<close> and re-raise only \<open>CancelledError\<close>, so a task of this class never ends
  with another exception. \<open>reader\<close> and \<open>writer\<close> say whether the attribute holds a
  stream (\<open>True\<close>) or \<open>None\<close>.
\<close>

datatype task = Running | Returned | Cancelled

record 'cb MirConnection =
  reader :: bool
  writer :: bool
  handlers :: "int \<rightharpoonup> 'cb list"
  default_handler :: "'cb option"
  receive_task :: "task option"
  keepalive_task :: "task option"
  connected :: bool
  disconnect_event :: bool

text \<open>\<open>MirConnection.__init__\<close>.\<close>

definition new_connection :: "'cb MirConnection" where
  "new_connection =
     \<lparr>reader = False, writer = False, handlers = Map.empty, default_handler = None,
      receive_task = None, keepalive_task = None, connected = False,
      disconnect_event = False\<rparr>"

text \<open>
  \<^verbatim>\<open>self._handlers.setdefault(packet_id, []).append(callback)\<close> and
  \<^verbatim>\<open>self._default_handler = callback\<close>.
\<close>

definition handlers_get :: "'cb MirConnection \<Rightarrow> int \<Rightarrow> 'cb list" where
  "handlers_get c packet_id = (case handlers c packet_id of None \<Rightarrow> [] | Some hs \<Rightarrow> hs)"

definition on_packet :: "'cb MirConnection \<Rightarrow> int \<Rightarrow> 'cb \<Rightarrow> 'cb MirConnection" where
  "on_packet c packet_id callback =
     c\<lparr>handlers := (handlers c)(packet_id \<mapsto> handlers_get c packet_id @ [callback])\<rparr>"


text \<open>
  What the receive loop does is recorded as a trace: the log records it writes and the
  callbacks it calls. \<open>run cb pkt\<close> is the outcome of calling callback \<open>cb\<close> on \<open>pkt\<close>
  (and awaiting it): \<open>None\<close> when it returns, \<open>Some e\<close> when it raises the
  \<open>Exception\<close> \<open>e\<close>. Callbacks do not register handlers or close the connection.
\<close>

datatype ('cb, 'p) event =
    Warning_invalid_length int
  | Warning_parse_failed int py_exception
  | Debug_unknown int nat
  | Debug_received 'p
  | Called 'cb 'p
  | Error_default_handler py_exception
  | Error_handler int py_exception
  | Info_closed

text \<open>\<open>struct.unpack("<H", ...)\<close> and \<open>struct.unpack("<h", ...)\<close> on two bytes.\<close>

definition unpack_H :: "byte \<Rightarrow> byte \<Rightarrow> int" where
  "unpack_H b0 b1 = uint b0 + 256 * uint b1"

definition unpack_h :: "byte \<Rightarrow> byte \<Rightarrow> int" where
  "unpack_h b0 b1 = (let v = unpack_H b0 b1 in if v < 32768 then v else v - 65536)"

text \<open>Lines 137-152: the default handler first, then the handlers of the kind.\<close>

definition call_default ::
  "('cb \<Rightarrow> 'p \<Rightarrow> py_exception option) \<Rightarrow> 'cb \<Rightarrow> 'p \<Rightarrow> ('cb, 'p) event list" where
  "call_default run h pkt =
     Called h pkt # (case run h pkt of None \<Rightarrow> [] | Some e \<Rightarrow> [Error_default_handler e])"

definition call_handler ::
  "('cb \<Rightarrow> 'p \<Rightarrow> py_exception option) \<Rightarrow> int \<Rightarrow> 'p \<Rightarrow> 'cb \<Rightarrow> ('cb, 'p) event list" where
  "call_handler run packet_id pkt h =
     Called h pkt # (case run h pkt of None \<Rightarrow> [] | Some e \<Rightarrow> [Error_handler packet_id e])"

definition dispatch ::
  "('cb \<Rightarrow> 'p \<Rightarrow> py_exception option) \<Rightarrow> 'cb MirConnection \<Rightarrow> int \<Rightarrow> 'p
     \<Rightarrow> ('cb, 'p) event list" where
  "dispatch run c packet_id pkt =
     (case default_handler c of None \<Rightarrow> [] | Some h \<Rightarrow> call_default run h pkt)
     @ concat (map (call_handler run packet_id pkt) (handlers_get c packet_id))"


text \<open>
  The \<open>finally\<close> clause of \<open>_receive_loop\<close>, and a trace put in front of a result.
\<close>

definition loop_finally :: "'cb MirConnection \<Rightarrow> 'cb MirConnection" where
  "loop_finally c = c\<lparr>connected := False, disconnect_event := True\<rparr>"

definition emit :: "'e list \<Rightarrow> 'e list \<times> 'c \<Rightarrow> 'e list \<times> 'c" where
  "emit es r = (es @ fst r, snd r)"

text \<open>
  \<open>_receive_loop\<close> on the bytes the peer sends before it closes the stream.
  \<open>readexactly(n)\<close> takes \<open>n\<close> bytes, or raises \<open>IncompleteReadError\<close> when fewer are
  left; the loop catches it, logs and ends through \<open>finally\<close>. The result is the trace
  and the connection the loop leaves behind.
\<close>

function receive_loop ::
  "(int \<rightharpoonup> 'p packet_class) \<Rightarrow> (byte list \<Rightarrow> py_exception + byte list)
     \<Rightarrow> ('cb \<Rightarrow> 'p \<Rightarrow> py_exception option) \<Rightarrow> 'cb MirConnection \<Rightarrow> byte list
     \<Rightarrow> ('cb, 'p) event list \<times> 'cb MirConnection" where
  "receive_loop server_packets gz run c stream =
     (if \<not> (connected c \<and> reader c) then ([], loop_finally c)
      else if length stream < 2 then ([Info_closed], loop_finally c)
      else
        let total_length = unpack_H (stream ! 0) (stream ! 1) in
        if total_length < 4
        then emit [Warning_invalid_length total_length]
               (receive_loop server_packets gz run c (drop 2 stream))
        else
          let remaining = nat (total_length - 2) in
          if length (drop 2 stream) < remaining then ([Info_closed], loop_finally c)
          else
            let body = take remaining (drop 2 stream);
                packet_id = unpack_h (body ! 0) (body ! 1);
                payload = drop 2 body
            in case parse_server_packet server_packets gz packet_id payload of
                 Inl e \<Rightarrow>
                   emit [Warning_parse_failed packet_id e]
                     (receive_loop server_packets gz run c (drop remaining (drop 2 stream)))
               | Inr None \<Rightarrow>
                   emit [Debug_unknown packet_id (length payload)]
                     (receive_loop server_packets gz run c (drop remaining (drop 2 stream)))
               | Inr (Some pkt) \<Rightarrow>
                   emit (Debug_received pkt # dispatch run c packet_id pkt)
                     (receive_loop server_packets gz run c (drop remaining (drop 2 stream))))"
  by pat_completeness auto
termination
  by (relation "measure (\<lambda>(server_packets, gz, run, c, stream). length stream)") auto

text \<open>
  \<open>disconnect\<close>. \<open>task.cancel()\<close> followed by \<open>await task\<close>: a running loop gets
  \<open>CancelledError\<close> thrown in, re-raises it and ends cancelled, and the \<open>await\<close> raises
  \<open>CancelledError\<close>; a task that has returned stays so and the \<open>await\<close> returns; a
  cancelled task raises \<open>CancelledError\<close> again. \<open>wait_closed\<close> is the outcome of
  \<open>await self._writer.wait_closed()\<close>. The two \<open>try\<close> statements differ:
  \<open>except asyncio.CancelledError\<close> catches only that, \<open>except Exception\<close> catches
  everything but \<open>CancelledError\<close>, which is a \<open>BaseException\<close>.
\<close>

fun cancel_and_await :: "task \<Rightarrow> task \<times> py_exception option" where
  "cancel_and_await Running = (Cancelled, Some CancelledError)"
| "cancel_and_await Returned = (Returned, None)"
| "cancel_and_await Cancelled = (Cancelled, Some CancelledError)"

definition except_CancelledError :: "py_exception option \<Rightarrow> py_exception option" where
  "except_CancelledError r = (if r = Some CancelledError then None else r)"

definition except_Exception :: "py_exception option \<Rightarrow> py_exception option" where
  "except_Exception r = (if r = Some CancelledError then r else None)"

definition disconnect ::
  "py_exception option \<Rightarrow> 'cb MirConnection \<Rightarrow> py_exception + 'cb MirConnection" where
  "disconnect wait_closed c =
     (let c1 = c\<lparr>connected := False\<rparr>;
          c2 = c1\<lparr>disconnect_event := True\<rparr>;
          (c3, r3) = (case keepalive_task c2 of
                        None \<Rightarrow> (c2, None)
                      | Some t \<Rightarrow>
                          (c2\<lparr>keepalive_task := Some (fst (cancel_and_await t))\<rparr>,
                           except_CancelledError (snd (cancel_and_await t))))
      in case r3 of
           Some e \<Rightarrow> Inl e
         | None \<Rightarrow>
            (let (c4, r4) = (case receive_task c3 of
                               None \<Rightarrow> (c3, None)
                             | Some t \<Rightarrow>
                                 (c3\<lparr>receive_task := Some (fst (cancel_and_await t))\<rparr>,
                                  except_CancelledError (snd (cancel_and_await t))))
             in case r4 of
                  Some e \<Rightarrow> Inl e
                | None \<Rightarrow>
                   (case (if writer c4 then except_Exception wait_closed else None) of
                      Some e \<Rightarrow> Inl e
                    | None \<Rightarrow> Inr (c4\<lparr>reader := False, writer := False\<rparr>))))"

text \<open>
  The connection a receive loop leaves behind when the peer closed the stream: the
  state after \<open>finally\<close>, with the receive task returned.
\<close>

definition peer_closed :: "'cb MirConnection \<Rightarrow> 'cb MirConnection" where
  "peer_closed c = (loop_finally c)\<lparr>receive_task := Some Returned\<rparr>"

text \<open>
  \<open>wait_disconnect\<close> awaits the disconnect event: \<open>Event.wait()\<close> returns at once when
  the event is set and suspends the caller otherwise.
\<close>

datatype wait_outcome = Returns_at_once | Suspends

definition wait_disconnect :: "'cb MirConnection \<Rightarrow> wait_outcome" where
  "wait_disconnect c = (if disconnect_event c then Returns_at_once else Suspends)"

section \<open>client.py: waiting for a packet\<close>

text \<open>
  A future is an object with identity; the model keeps the futures in a store indexed
  by address, and \<open>create_future\<close> takes the next unused address. \<open>_waiters\<close> maps a
  packet id to the list of futures registered for it. Of \<open>MirClient\<close> only these
  parts take part in \<open>_wait_for\<close> and \<open>_dispatch_waiter\<close>.
\<close>

datatype 'p future = Pending | Result 'p | Future_cancelled

record 'p MirClient =
  waiters :: "int \<rightharpoonup> nat list"
  futures :: "nat \<Rightarrow> 'p future"
  next_future :: nat

definition new_client :: "'p MirClient" where
  "new_client = \<lparr>waiters = Map.empty, futures = (\<lambda>_. Pending), next_future = 0\<rparr>"

text \<open>\<open>fut.done()\<close>: true of a future with a result and of a cancelled one.\<close>

definition future_done :: "'p future \<Rightarrow> bool" where
  "future_done f = (f \<noteq> Pending)"

text \<open>\<open>self._waiters.get(pid, [])\<close>.\<close>

definition waiters_get :: "(int \<rightharpoonup> nat list) \<Rightarrow> int \<Rightarrow> nat list" where
  "waiters_get w pid = (case w pid of None \<Rightarrow> [] | Some fs \<Rightarrow> fs)"

text \<open>
  \<open>_wait_for\<close> up to its \<open>await\<close>: for every id of \<open>[packet_id] + alt_ids\<close> a new
  future, appended to the list of that id (\<open>setdefault\<close> creates the list) and to the
  local list \<open>futures\<close>.
\<close>

fun register_loop :: "int list \<Rightarrow> 'p MirClient \<Rightarrow> nat list \<Rightarrow> nat list \<times> 'p MirClient" where
  "register_loop [] c futs = (futs, c)"
| "register_loop (pid # ids) c futs =
     (let fut = next_future c;
          c' = c\<lparr>futures := (futures c)(fut := Pending), next_future := Suc fut,
                 waiters := (waiters c)(pid \<mapsto> waiters_get (waiters c) pid @ [fut])\<rparr>
      in register_loop ids c' (futs @ [fut]))"

definition wait_for_register ::
  "'p MirClient \<Rightarrow> int \<Rightarrow> int list \<Rightarrow> nat list \<times> 'p MirClient" where
  "wait_for_register c packet_id alt_ids = register_loop (packet_id # alt_ids) c []"

text \<open>
  \<open>_dispatch_waiter\<close>: every future in the list of the packet's id that is not done
  gets the packet as its result. The list itself is not changed.
\<close>

fun set_results :: "nat list \<Rightarrow> 'p \<Rightarrow> (nat \<Rightarrow> 'p future) \<Rightarrow> (nat \<Rightarrow> 'p future)" where
  "set_results [] pkt fs = fs"
| "set_results (fut # rest) pkt fs =
     set_results rest pkt (if \<not> future_done (fs fut) then fs(fut := Result pkt) else fs)"

definition dispatch_waiter :: "'p MirClient \<Rightarrow> int \<Rightarrow> 'p \<Rightarrow> 'p MirClient" where
  "dispatch_waiter c pid pkt =
     c\<lparr>futures := set_results (waiters_get (waiters c) pid) pkt (futures c)\<rparr>"

fun dispatch_all :: "'p MirClient \<Rightarrow> (int \<times> 'p) list \<Rightarrow> 'p MirClient" where
  "dispatch_all c [] = c"
| "dispatch_all c ((pid, pkt) # rest) = dispatch_all (dispatch_waiter c pid pkt) rest"

text \<open>
  \<open>_wait_for\<close> from the return of \<open>asyncio.wait\<close> on: \<open>done\<close> are the futures of the
  call that are done, \<open>pending\<close> the others, which are cancelled. With no future done
  the wait has timed out and \<open>TimeoutError\<close> is raised; otherwise \<open>done.pop()\<close> takes
  some element of the set \<open>done\<close>, so the first component of the result lists the
  possible outcomes of the call, one for each done future. The \<open>finally\<close> clause runs
  in both cases: for every id, every future of the call that is in the list is removed
  from it (\<open>list.remove\<close> removes the first occurrence).
\<close>

fun cancel_all :: "nat list \<Rightarrow> (nat \<Rightarrow> 'p future) \<Rightarrow> (nat \<Rightarrow> 'p future)" where
  "cancel_all [] fs = fs"
| "cancel_all (f # rest) fs = cancel_all rest (if \<not> future_done (fs f) then fs(f := Future_cancelled) else fs)"

text \<open>\<open>fut.result()\<close>: the packet, or the exception a cancelled or pending future raises.\<close>

definition future_result :: "'p future \<Rightarrow> py_exception + 'p" where
  "future_result f =
     (case f of
        Result pkt \<Rightarrow> Inr pkt
      | Future_cancelled \<Rightarrow> Inl CancelledError
      | Pending \<Rightarrow> Inl InvalidStateError)"

fun remove_futures :: "nat list \<Rightarrow> nat list \<Rightarrow> nat list" where
  "remove_futures [] ws = ws"
| "remove_futures (f # fs) ws = remove_futures fs (if f \<in> set ws then remove1 f ws else ws)"

fun cleanup :: "int list \<Rightarrow> nat list \<Rightarrow> (int \<rightharpoonup> nat list) \<Rightarrow> (int \<rightharpoonup> nat list)" where
  "cleanup [] futs w = w"
| "cleanup (pid # ids) futs w =
     cleanup ids futs (case w pid of None \<Rightarrow> w | Some ws \<Rightarrow> w(pid \<mapsto> remove_futures futs ws))"

definition wait_for_resume ::
  "'p MirClient \<Rightarrow> int \<Rightarrow> int list \<Rightarrow> nat list
     \<Rightarrow> (py_exception + 'p) list \<times> 'p MirClient" where
  "wait_for_resume c packet_id alt_ids futs =
     (let ids = packet_id # alt_ids;
          done_futs = filter (\<lambda>f. future_done (futures c f)) futs;
          pending = filter (\<lambda>f. \<not> future_done (futures c f)) futs;
          fs' = cancel_all pending (futures c);
          outcomes = (if done_futs = [] then [Inl TimeoutError]
                      else map (\<lambda>f. future_result (fs' f)) done_futs)
      in (outcomes, c\<lparr>futures := fs', waiters := cleanup ids futs (waiters c)\<rparr>))"

text \<open>
  Futures are allocated in increasing order, so every registered future lies below the
  allocation counter. This holds of a new client and every operation keeps it.
\<close>

definition registry_ok :: "'p MirClient \<Rightarrow> bool" where
  "registry_ok c = (\<forall>pid. \<forall>f \<in> set (waiters_get (waiters c) pid). f < next_future c)"

section \<open>Auxiliary definitions for the statements\<close>

text \<open>The number a sequence of 7-bit groups stands for, least significant group first.\<close>

fun value_7bit :: "byte list \<Rightarrow> int" where
  "value_7bit [] = 0"
| "value_7bit (b # rest) = take_bit 7 (uint b) OR push_bit 7 (value_7bit rest)"

text \<open>
  The parts of the frame at the head of a stream: declared total length, packet id,
  payload, and the bytes after the frame.
\<close>

definition frame_length :: "byte list \<Rightarrow> int" where
  "frame_length stream = unpack_H (stream ! 0) (stream ! 1)"

definition frame_packet_id :: "byte list \<Rightarrow> int" where
  "frame_packet_id stream = unpack_h (stream ! 2) (stream ! 3)"

definition frame_payload :: "byte list \<Rightarrow> byte list" where
  "frame_payload stream = drop 4 (take (nat (frame_length stream)) stream)"

definition frame_rest :: "byte list \<Rightarrow> byte list" where
  "frame_rest stream = drop (nat (frame_length stream)) stream"

text \<open>
  A game state with entries in all four tables, the id 1 in both the player and the
  monster table, and a map-change packet whose direction byte is 8.
\<close>

definition obj_at :: "int \<Rightarrow> string \<Rightarrow> int \<times> int \<Rightarrow> ObjectInfo" where
  "obj_at i n loc =
     \<lparr>o_object_id = i, o_name = n, o_location = loc, o_direction = 0, o_dead = False,
      o_extras = Map.empty\<rparr>"

definition state0 :: GameState where
  "state0 =
     \<lparr>stage = GAME, object_id = 100, name = ''bot'', level = 7, class_ = 0, gender = 0,
      location = (10, 10), direction = Up, hp = 50, mp = 20, max_hp = 50, max_mp = 20,
      experience = 0, max_experience = 100, gold = 5, credit = 0, dead = False,
      map_index = 1, map_title = ''Town'', map_file = ''0'',
      inventory = [], equipment = [], magics = [], item_infos = Map.empty,
      players = [1 \<mapsto> obj_at 1 ''ann'' (3, 4)],
      monsters = [1 \<mapsto> obj_at 1 ''deer'' (5, 6), 2 \<mapsto> obj_at 2 ''hen'' (7, 8)],
      npcs = [3 \<mapsto> obj_at 3 ''smith'' (9, 9)],
      ground_items = [4 \<mapsto> obj_at 4 ''potion'' (2, 2)],
      buffs = Map.empty, characters = [], npc_page = []\<rparr>"

definition map_changed8 :: S_MapChanged where
  "map_changed8 =
     \<lparr>mc_map_index = 2, mc_file_name = ''1'', mc_title = ''Cave'', mc_mini_map = 0,
      mc_big_map = 0, mc_lights = 0, mc_location = (20, 30), mc_direction = 8,
      mc_map_dark_light = 0, mc_music = 0, mc_weather = 0\<rparr>"

text \<open>
  A catalogue with the single kind 1, whose decoder raises on an empty payload, a
  decompressor never called by it, callbacks that return normally, a connection as
  \<open>connect\<close> leaves it, and two waiters registered for kind 7 on a new client, before
  and after the packets \<open>first\<close> and \<open>second\<close> of kind 7 have been dispatched.
\<close>

definition example_packets :: "int \<rightharpoonup> string packet_class" where
  "example_packets =
     [1 \<mapsto> \<lparr>compressed = False,
              read_packet = (\<lambda>data. if data = [] then Inl StructError else Inr ''decoded'')\<rparr>]"

definition no_gzip :: "byte list \<Rightarrow> py_exception + byte list" where
  "no_gzip data = Inl OSError"

definition quiet :: "nat \<Rightarrow> string \<Rightarrow> py_exception option" where
  "quiet h pkt = None"

definition open_connection :: "nat MirConnection" where
  "open_connection =
     new_connection\<lparr>reader := True, writer := True, connected := True,
                    receive_task := Some Running, keepalive_task := Some Running\<rparr>"

definition two_waiters :: "string MirClient" where
  "two_waiters = snd (wait_for_register (snd (wait_for_register new_client 7 [])) 7 [])"

definition two_waiters_two_packets :: "string MirClient" where
  "two_waiters_two_packets =
     dispatch_waiter (dispatch_waiter two_waiters 7 ''first'') 7 ''second''"

section \<open>Gold\<close>

text \<open>
  Claim C5, as amended. A gained-gold packet with amount \<open>g\<close> adds \<open>g\<close> to the gold.
  A lose-gold packet with amount \<open>g\<close> subtracts \<open>g\<close> but stops at zero: the new gold
  is the old gold minus \<open>g\<close> when \<open>g\<close> is at most the old gold, and 0 otherwise.
\<close>

theorem gold_deltas:
  "gold (on_gained_gold st p) = gold st + gg_gold p \<and>
   gold (on_lose_gold st q) = (if lg_gold q \<le> gold st then gold st - lg_gold q else 0)"
  by (simp add: on_gained_gold_def on_lose_gold_def)

text \<open>
  Claim C5 as stated fails: with 5 gold, a lose-gold packet of 10 leaves 0, not
  \<open>5 - 10\<close>.
\<close>

theorem lose_gold_not_plain_subtraction:
  "gold (on_lose_gold state0 \<lparr>lg_gold = 10\<rparr>) = 0 \<and>
   gold (on_lose_gold state0 \<lparr>lg_gold = 10\<rparr>) \<noteq> gold state0 - lg_gold \<lparr>lg_gold = 10\<rparr>"
  by (simp add: on_lose_gold_def state0_def)

section \<open>Map change and logout\<close>

lemma on_map_changed_member:
  "mir_direction (mc_direction pkt) = Some d \<Longrightarrow>
   on_map_changed mir_direction st pkt =
     (st\<lparr>map_index := mc_map_index pkt, map_file := mc_file_name pkt,
         map_title := mc_title pkt, location := mc_location pkt, direction := d,
         players := Map.empty, monsters := Map.empty, npcs := Map.empty,
         ground_items := Map.empty\<rparr>, None)"
  by (simp add: on_map_changed_def)

lemma on_map_changed_no_member:
  "mir_direction (mc_direction pkt) = None \<Longrightarrow>
   on_map_changed mir_direction st pkt =
     (st\<lparr>map_index := mc_map_index pkt, map_file := mc_file_name pkt,
         map_title := mc_title pkt, location := mc_location pkt\<rparr>, Some ValueError)"
  by (simp add: on_map_changed_def)

text \<open>
  Claim C3: a map-change packet leaves all four tables empty and the map identity
  updated. The handler does so when the direction byte is a member of the
  enumeration (\<open>on_map_changed_member\<close>). On the packet \<open>map_changed8\<close>, whose direction
  byte is 8, \<open>MirDirection(8)\<close> raises after the map identity has been assigned and
  before any table is cleared: the handler ends with \<open>ValueError\<close>, the map identity is
  the new one and all four tables still hold their entries.
\<close>

theorem map_changed_direction_8_keeps_tables:
  "snd (on_map_changed MirDirection_of state0 map_changed8) = Some ValueError \<and>
   map_index (fst (on_map_changed MirDirection_of state0 map_changed8)) = 2 \<and>
   map_file (fst (on_map_changed MirDirection_of state0 map_changed8)) = ''1'' \<and>
   map_title (fst (on_map_changed MirDirection_of state0 map_changed8)) = ''Cave'' \<and>
   players (fst (on_map_changed MirDirection_of state0 map_changed8)) 1
     = Some (obj_at 1 ''ann'' (3, 4)) \<and>
   monsters (fst (on_map_changed MirDirection_of state0 map_changed8)) 2
     = Some (obj_at 2 ''hen'' (7, 8)) \<and>
   npcs (fst (on_map_changed MirDirection_of state0 map_changed8)) 3
     = Some (obj_at 3 ''smith'' (9, 9)) \<and>
   ground_items (fst (on_map_changed MirDirection_of state0 map_changed8)) 4
     = Some (obj_at 4 ''potion'' (2, 2))"
  by (simp add: on_map_changed_def MirDirection_of_def state0_def map_changed8_def)

text \<open>
  Claim C10: a logout-success packet clears the player, monster, NPC and ground-item
  tables, replaces the character roster with the packet's and sets the stage to
  character select.
\<close>

theorem logout_success_clears_tables:
  "players (on_logout_success st pkt) = Map.empty \<and>
   monsters (on_logout_success st pkt) = Map.empty \<and>
   npcs (on_logout_success st pkt) = Map.empty \<and>
   ground_items (on_logout_success st pkt) = Map.empty \<and>
   characters (on_logout_success st pkt) = lo_characters pkt \<and>
   stage (on_logout_success st pkt) = SELECT"
  by (simp add: on_logout_success_def)

section \<open>Position updates\<close>

text \<open>
  Claim C6: turn, walk and run packets all go through \<open>_update_object_pos\<close>. The
  player, monster and NPC tables are searched in this order; the entry of the first
  table that has the id gets the new location and direction and nothing else in the
  state changes, so an entry under the same id in a later table stays as it is. With
  the id in none of the three tables the state is unchanged.
\<close>

theorem update_object_pos_first_match:
  "on_object_turn st pt
     = update_object_pos st (ot_object_id pt) (ot_location pt) (ot_direction pt) \<and>
   on_object_walk st pw
     = update_object_pos st (ow_object_id pw) (ow_location pw) (ow_direction pw) \<and>
   on_object_run st pr
     = update_object_pos st (or_object_id pr) (or_location pr) (or_direction pr) \<and>
   (\<forall>obj. players st oid = Some obj \<longrightarrow>
      update_object_pos st oid loc dir
        = st\<lparr>players := (players st)(oid \<mapsto> obj\<lparr>o_location := loc, o_direction := dir\<rparr>)\<rparr>) \<and>
   (\<forall>obj. players st oid = None \<and> monsters st oid = Some obj \<longrightarrow>
      update_object_pos st oid loc dir
        = st\<lparr>monsters := (monsters st)(oid \<mapsto> obj\<lparr>o_location := loc, o_direction := dir\<rparr>)\<rparr>) \<and>
   (\<forall>obj. players st oid = None \<and> monsters st oid = None \<and> npcs st oid = Some obj \<longrightarrow>
      update_object_pos st oid loc dir
        = st\<lparr>npcs := (npcs st)(oid \<mapsto> obj\<lparr>o_location := loc, o_direction := dir\<rparr>)\<rparr>) \<and>
   (players st oid = None \<and> monsters st oid = None \<and> npcs st oid = None \<longrightarrow>
      update_object_pos st oid loc dir = st)"
  by (simp add: on_object_turn_def on_object_walk_def on_object_run_def
        update_object_pos_def moved_def)

text \<open>
  Claim C6 on \<open>state0\<close>: id 1 is a player and a monster, and only the player moves;
  id 2 is a monster, id 3 an NPC; id 4 is only a ground item and id 9 is unknown, and
  for both the state stays as it is.
\<close>

theorem update_object_pos_first_match_witness:
  "players state0 1 = Some (obj_at 1 ''ann'' (3, 4)) \<and>
   update_object_pos state0 1 (8, 8) 2
     = state0\<lparr>players := (players state0)(1 \<mapsto> (obj_at 1 ''ann'' (3, 4))\<lparr>o_location := (8, 8), o_direction := 2\<rparr>)\<rparr> \<and>
   monsters (update_object_pos state0 1 (8, 8) 2) 1 = Some (obj_at 1 ''deer'' (5, 6)) \<and>
   players state0 2 = None \<and> monsters state0 2 = Some (obj_at 2 ''hen'' (7, 8)) \<and>
   update_object_pos state0 2 (8, 8) 2
     = state0\<lparr>monsters := (monsters state0)(2 \<mapsto> (obj_at 2 ''hen'' (7, 8))\<lparr>o_location := (8, 8), o_direction := 2\<rparr>)\<rparr> \<and>
   players state0 3 = None \<and> monsters state0 3 = None \<and>
   npcs state0 3 = Some (obj_at 3 ''smith'' (9, 9)) \<and>
   update_object_pos state0 3 (8, 8) 2
     = state0\<lparr>npcs := (npcs state0)(3 \<mapsto> (obj_at 3 ''smith'' (9, 9))\<lparr>o_location := (8, 8), o_direction := 2\<rparr>)\<rparr> \<and>
   players state0 4 = None \<and> monsters state0 4 = None \<and> npcs state0 4 = None \<and>
   update_object_pos state0 4 (8, 8) 2 = state0 \<and>
   players state0 9 = None \<and> monsters state0 9 = None \<and> npcs state0 9 = None \<and>
   update_object_pos state0 9 (8, 8) 2 = state0"
proof -
  have p1: "players state0 1 = Some (obj_at 1 ''ann'' (3, 4))"
    and m1: "monsters state0 1 = Some (obj_at 1 ''deer'' (5, 6))"
    and p2: "players state0 2 = None"
    and m2: "monsters state0 2 = Some (obj_at 2 ''hen'' (7, 8))"
    and p3: "players state0 3 = None" and m3: "monsters state0 3 = None"
    and n3: "npcs state0 3 = Some (obj_at 3 ''smith'' (9, 9))"
    and p4: "players state0 4 = None" and m4: "monsters state0 4 = None"
    and n4: "npcs state0 4 = None"
    and p9: "players state0 9 = None" and m9: "monsters state0 9 = None"
    and n9: "npcs state0 9 = None"
    by (simp_all add: state0_def)
  note t = update_object_pos_first_match [where st = state0 and loc = "(8, 8)" and dir = 2]
  from t [where oid = 1] p1
  have u1: "update_object_pos state0 1 (8, 8) 2
     = state0\<lparr>players := (players state0)(1 \<mapsto> (obj_at 1 ''ann'' (3, 4))\<lparr>o_location := (8, 8), o_direction := 2\<rparr>)\<rparr>"
    by blast
  from t [where oid = 2] p2 m2
  have u2: "update_object_pos state0 2 (8, 8) 2
     = state0\<lparr>monsters := (monsters state0)(2 \<mapsto> (obj_at 2 ''hen'' (7, 8))\<lparr>o_location := (8, 8), o_direction := 2\<rparr>)\<rparr>"
    by blast
  from t [where oid = 3] p3 m3 n3
  have u3: "update_object_pos state0 3 (8, 8) 2
     = state0\<lparr>npcs := (npcs state0)(3 \<mapsto> (obj_at 3 ''smith'' (9, 9))\<lparr>o_location := (8, 8), o_direction := 2\<rparr>)\<rparr>"
    by blast
  from t [where oid = 4] p4 m4 n4
  have u4: "update_object_pos state0 4 (8, 8) 2 = state0"
    by blast
  from t [where oid = 9] p9 m9 n9
  have u9: "update_object_pos state0 9 (8, 8) 2 = state0"
    by blast
  have later: "monsters (update_object_pos state0 1 (8, 8) 2) 1 = Some (obj_at 1 ''deer'' (5, 6))"
    by (simp add: u1 m1)
  show ?thesis
    using p1 p2 m2 p3 m3 n3 p4 m4 n4 p9 m9 n9 u1 u2 u3 u4 u9 later by blast
qed

section \<open>The 7-bit encoded integer\<close>

lemma read_7bit_loop_read_byte:
  "read_7bit_loop stream result shift =
     (case read_byte stream of
        Inl e \<Rightarrow> Inl e
      | Inr (b, rest) \<Rightarrow>
          (let result' = result OR push_bit shift (b AND 0x7F)
           in if b AND 0x80 = 0 then Inr (result', rest)
              else read_7bit_loop rest result' (shift + 7)))"
  by (cases stream) (simp_all add: read_byte_def)

lemma mask7: "(v::int) AND 0x7F = take_bit 7 v"
  by (simp add: take_bit_eq_mask mask_eq_exp_minus_1)

lemma split7: "take_bit 7 v OR push_bit 7 (drop_bit 7 v) = (v::int)"
proof (rule bit_eqI)
  fix n
  show "bit (take_bit 7 v OR push_bit 7 (drop_bit 7 v)) n = bit v n"
  proof (cases "n < 7")
    case True
    then show ?thesis by (simp add: bit_simps)
  next
    case False
    then have "7 + (n - 7) = n" by simp
    with False show ?thesis by (simp add: bit_simps)
  qed
qed

lemma or_push: "push_bit s (a::int) OR push_bit s b = push_bit s (a OR b)"
  by (rule bit_eqI) (auto simp add: bit_simps)

lemma recombine:
  "((r::int) OR push_bit s (take_bit 7 v)) OR push_bit (s + 7) (drop_bit 7 v) = r OR push_bit s v"
proof -
  have "push_bit (s + 7) (drop_bit 7 v) = push_bit s (push_bit 7 (drop_bit 7 v))"
    by simp
  then have "push_bit s (take_bit 7 v) OR push_bit (s + 7) (drop_bit 7 v) = push_bit s v"
    by (simp only: or_push split7)
  then show ?thesis
    by (simp only: or.assoc)
qed

lemma take7_bounds: "0 \<le> take_bit 7 (v::int)" "take_bit 7 (v::int) < 128"
  using take_bit_int_less_exp [of 7 v] by simp_all

lemma bit128: "bit (128::int) n \<longleftrightarrow> n = 7"
  using bit_exp_iff [where ?'a = int, of 7 n] by auto

lemma and128: "take_bit 7 (v::int) AND 128 = 0"
  by (rule bit_eqI) (auto simp add: bit_simps bit128)

lemma or128: "take_bit 7 (v::int) OR 0x80 = take_bit 7 v + 128"
  using disjunctive_add_eq_or [OF and128, of v] by simp

lemma or128_bounds: "128 \<le> take_bit 7 (v::int) OR 0x80" "take_bit 7 (v::int) OR 0x80 < 256"
  using take7_bounds [of v] by (simp_all add: or128)

lemma uint_cont_byte: "uint (word_of_int (take_bit 7 v OR 0x80) :: byte) = take_bit 7 v OR 0x80"
  using or128_bounds [of v] by (simp add: uint_word_of_int)

lemma uint_last_byte: "uint (word_of_int (take_bit 7 v) :: byte) = take_bit 7 v"
  using take7_bounds [of v] by (simp add: uint_word_of_int)

lemma cont_low: "(take_bit 7 (v::int) OR 0x80) AND 0x7F = take_bit 7 v"
  by (rule bit_eqI) (auto simp add: bit_simps mask7)

lemma cont_high: "(take_bit 7 (v::int) OR 0x80) AND 0x80 \<noteq> 0"
  by (simp add: bit.conj_disj_distrib2 or_eq_0_iff)



declare encode_7bit_loop.simps [simp del]

lemma encode_7bit_loop_append: "encode_7bit_loop v result = result @ encode_7bit_loop v []"
proof (induction "nat v" arbitrary: v result rule: less_induct)
  case less
  show ?case
  proof (cases "v \<ge> 0x80")
    case True
    then have smaller: "nat (drop_bit 7 v) < nat v"
      by (simp add: drop_bit_eq_div)
    let ?b = "word_of_int ((v AND 0x7F) OR 0x80) :: byte"
    have "encode_7bit_loop v result = encode_7bit_loop (drop_bit 7 v) (result @ [?b])"
      using True by (subst encode_7bit_loop.simps) simp
    also have "\<dots> = (result @ [?b]) @ encode_7bit_loop (drop_bit 7 v) []"
      by (rule less [OF smaller])
    also have "\<dots> = result @ encode_7bit_loop (drop_bit 7 v) ([] @ [?b])"
      using less [OF smaller, of "[] @ [?b]"] by simp
    also have "\<dots> = result @ encode_7bit_loop v []"
      using True by (subst (2) encode_7bit_loop.simps) simp
    finally show ?thesis .
  next
    case False
    then show ?thesis
      by (simp add: encode_7bit_loop.simps [of v])
  qed
qed

lemma encode_7bit_int_unfold:
  "encode_7bit_int v =
     (if v \<ge> 0x80 then word_of_int (take_bit 7 v OR 0x80) # encode_7bit_int (drop_bit 7 v)
      else [word_of_int (take_bit 7 v)])"
proof (cases "v \<ge> 0x80")
  case True
  have "encode_7bit_loop v [] = encode_7bit_loop (drop_bit 7 v) ([] @ [word_of_int ((v AND 0x7F) OR 0x80)])"
    using True by (subst encode_7bit_loop.simps) simp
  also have "\<dots> = [word_of_int ((v AND 0x7F) OR 0x80)] @ encode_7bit_loop (drop_bit 7 v) []"
    using encode_7bit_loop_append [of "drop_bit 7 v" "[] @ [word_of_int ((v AND 0x7F) OR 0x80)]"] by simp
  finally show ?thesis
    using True by (simp add: encode_7bit_int_def mask7)
next
  case False
  then show ?thesis
    by (simp add: encode_7bit_int_def encode_7bit_loop.simps [of v] mask7)
qed

lemma read_encoded:
  "0 \<le> v \<Longrightarrow> read_7bit_loop (encode_7bit_int v @ rest) r s = Inr (r OR push_bit s v, rest)"
proof (induction "nat v" arbitrary: v r s rule: less_induct)
  case less
  show ?case
  proof (cases "v \<ge> 0x80")
    case True
    then have smaller: "nat (drop_bit 7 v) < nat v" and nonneg: "0 \<le> drop_bit 7 v"
      by (simp_all add: drop_bit_eq_div)
    have "read_7bit_loop (encode_7bit_int v @ rest) r s =
            read_7bit_loop (encode_7bit_int (drop_bit 7 v) @ rest)
              (r OR push_bit s (take_bit 7 v)) (s + 7)"
      using True
      by (subst encode_7bit_int_unfold) (simp add: uint_cont_byte cont_low cont_high)
    also have "\<dots> = Inr ((r OR push_bit s (take_bit 7 v)) OR push_bit (s + 7) (drop_bit 7 v), rest)"
      by (rule less.hyps [OF smaller nonneg])
    finally show ?thesis
      by (simp only: recombine)
  next
    case False
    with less.prems have small: "take_bit 7 v = v"
      by (simp add: take_bit_int_eq_self)
    have "uint (word_of_int v :: byte) = v"
      using uint_last_byte [of v] by (simp add: small)
    moreover have "v AND 0x7F = v"
      by (simp add: mask7 small)
    moreover have "v AND 0x80 = 0"
      using and128 [of v] by (simp add: small)
    ultimately show ?thesis
      using False
      by (subst encode_7bit_int_unfold) (simp add: small)
  qed
qed



lemma value_7bit_nonneg: "0 \<le> value_7bit bs"
  by (induction bs) simp_all

lemma regroup:
  "((r::int) OR push_bit s a) OR push_bit (s + 7) h = r OR push_bit s (a OR push_bit 7 h)"
proof -
  have "push_bit (s + 7) h = push_bit s (push_bit 7 h)"
    by simp
  then have "push_bit s a OR push_bit (s + 7) h = push_bit s (a OR push_bit 7 h)"
    by (simp only: or_push)
  then show ?thesis
    by (simp only: or.assoc)
qed

lemma read_valid:
  "valid_7bit bs \<Longrightarrow>
     read_7bit_loop (bs @ rest) r s = Inr (r OR push_bit s (value_7bit bs), rest)"
proof (induction bs arbitrary: r s rule: valid_7bit.induct)
  case 1
  then show ?case by simp
next
  case (2 b)
  then show ?case by (simp add: mask7)
next
  case (3 b c bs)
  then have "read_7bit_loop ((b # c # bs) @ rest) r s =
      Inr ((r OR push_bit s (take_bit 7 (uint b))) OR push_bit (s + 7) (value_7bit (c # bs)), rest)"
    by (simp add: mask7 del: value_7bit.simps)
  also have "(r OR push_bit s (take_bit 7 (uint b))) OR push_bit (s + 7) (value_7bit (c # bs))
       = r OR push_bit s (value_7bit (b # c # bs))"
    by (simp only: regroup value_7bit.simps)
  finally show ?case .
qed

lemma low_and_high: "take_bit 7 (x::int) AND push_bit 7 h = 0"
  by (rule bit_eqI) (auto simp add: bit_simps)

lemma low_or_high:
  "take_bit 7 (x::int) OR push_bit 7 h = take_bit 7 x + 128 * h"
  using disjunctive_add_eq_or [OF low_and_high, of x h] by (simp add: push_bit_eq_mult)

lemma bit7: "(x::int) AND 0x80 = 0 \<longleftrightarrow> \<not> bit x 7"
  using bit_iff_and_push_bit_not_eq_0 [of x 7] by simp

lemma byte_last: "uint (b::byte) AND 0x80 = 0 \<Longrightarrow> take_bit 7 (uint b) = uint b"
proof (rule bit_eqI)
  fix n
  assume a: "uint b AND 0x80 = 0"
  show "bit (take_bit 7 (uint b)) n = bit (uint b) n"
  proof (cases "n < 7")
    case True
    then show ?thesis by (simp add: bit_simps)
  next
    case False
    then have "n = 7 \<or> 8 \<le> n" by auto
    then have "\<not> bit (uint b) n"
      using a by (auto simp add: bit7 bit_uint_iff)
    with False show ?thesis by (simp add: bit_simps)
  qed
qed

lemma byte_cont: "uint (b::byte) AND 0x80 \<noteq> 0 \<Longrightarrow> take_bit 7 (uint b) OR 0x80 = uint b"
proof (rule bit_eqI)
  fix n
  assume a: "uint b AND 0x80 \<noteq> 0"
  show "bit (take_bit 7 (uint b) OR 0x80) n = bit (uint b) n"
  proof (cases "n < 7")
    case True
    then show ?thesis by (simp add: bit_simps bit128)
  next
    case False
    then consider "n = 7" | "8 \<le> n" by fastforce
    then show ?thesis
    proof cases
      case 1
      then show ?thesis using a by (simp add: bit_simps bit128 bit7)
    next
      case 2
      then show ?thesis by (auto simp add: bit_simps bit128 bit_uint_iff dest: bit_imp_le_length)
    qed
  qed
qed


lemma value_7bit_last: "uint (b::byte) AND 0x80 = 0 \<Longrightarrow> value_7bit [b] = uint b"
  by (simp add: byte_last)

lemma value_7bit_cons:
  "value_7bit (b # rest) = take_bit 7 (uint b) + 128 * value_7bit rest"
  by (simp add: low_or_high)

lemma take_drop_value:
  "take_bit 7 (value_7bit (b # rest)) = take_bit 7 (uint b)"
  "drop_bit 7 (value_7bit (b # rest)) = value_7bit rest"
  using take7_bounds [of "uint b"]
  by (simp_all add: value_7bit_cons take_bit_eq_mod drop_bit_eq_div del: value_7bit.simps)

lemma value_7bit_big: "1 \<le> value_7bit rest \<Longrightarrow> 128 \<le> value_7bit (b # rest)"
  using take7_bounds(1) [of "uint b"] unfolding value_7bit_cons [of b rest] by linarith

lemma minimal_positive:
  "minimal_7bit bs \<Longrightarrow> 2 \<le> length bs \<Longrightarrow> 1 \<le> value_7bit (tl bs)"
proof (induction bs rule: minimal_7bit.induct)
  case (3 b c)
  then have "uint c \<noteq> 0" by (simp add: uint_0_iff)
  moreover have "0 \<le> uint c" by simp
  ultimately have "1 \<le> uint c" by linarith
  with 3 show ?case by (simp add: byte_last)
next
  case (4 b c d rest)
  then have "1 \<le> value_7bit (d # rest)" by simp
  then have "128 \<le> value_7bit (c # d # rest)" by (rule value_7bit_big)
  then show ?case by simp
qed simp_all

lemma encode_cont:
  assumes "uint b AND 0x80 \<noteq> 0" and "1 \<le> value_7bit rest"
  shows "encode_7bit_int (value_7bit (b # rest)) = b # encode_7bit_int (value_7bit rest)"
proof -
  have "128 \<le> value_7bit (b # rest)"
    using assms(2) by (rule value_7bit_big)
  then have "encode_7bit_int (value_7bit (b # rest)) =
      word_of_int (take_bit 7 (value_7bit (b # rest)) OR 0x80)
        # encode_7bit_int (drop_bit 7 (value_7bit (b # rest)))"
    by (subst encode_7bit_int_unfold) simp
  also have "\<dots> = word_of_int (uint b) # encode_7bit_int (value_7bit rest)"
    using byte_cont [OF assms(1)] by (simp add: take_drop_value del: value_7bit.simps)
  finally show ?thesis by simp
qed

lemma encode_last:
  assumes "uint (b::byte) AND 0x80 = 0"
  shows "encode_7bit_int (value_7bit [b]) = [b]"
proof -
  have v: "value_7bit [b] = uint b"
    using assms by (rule value_7bit_last)
  have "uint b < 128"
    using take7_bounds(2) [of "uint b"] assms by (simp add: byte_last)
  then have "encode_7bit_int (uint b) = [word_of_int (take_bit 7 (uint b))]"
    by (subst encode_7bit_int_unfold) simp
  then show ?thesis
    using assms by (simp add: v byte_last)
qed

lemma encode_value:
  "minimal_7bit bs \<Longrightarrow> encode_7bit_int (value_7bit bs) = bs"
proof (induction bs rule: minimal_7bit.induct)
  case 1
  then show ?case by simp
next
  case (2 b)
  then show ?case by (simp only: minimal_7bit.simps encode_last)
next
  case (3 b c)
  then have b: "uint b AND 0x80 \<noteq> 0" and c: "uint c AND 0x80 = 0" by simp_all
  have "1 \<le> value_7bit [c]"
    using minimal_positive [OF 3] by simp
  then show ?case
    using encode_cont [OF b, of "[c]"] encode_last [OF c] by simp
next
  case (4 b c d rest)
  then have b: "uint b AND 0x80 \<noteq> 0"
    and tail: "encode_7bit_int (value_7bit (c # d # rest)) = c # d # rest"
    by simp_all
  have "1 \<le> value_7bit (c # d # rest)"
    using minimal_positive [OF "4.prems"] by simp
  then show ?case
    using encode_cont [OF b, of "c # d # rest"] tail by simp
qed

lemma minimal_valid: "minimal_7bit bs \<Longrightarrow> valid_7bit bs"
  by (induction bs rule: minimal_7bit.induct) simp_all

lemma minimal_cons:
  "uint b AND 0x80 \<noteq> 0 \<Longrightarrow> minimal_7bit rest \<Longrightarrow> rest \<noteq> [0] \<Longrightarrow> minimal_7bit (b # rest)"
proof (cases rest)
  case Nil
  assume "minimal_7bit rest"
  with Nil show ?thesis by simp
next
  case (Cons c cs)
  assume b: "uint b AND 0x80 \<noteq> 0" and m: "minimal_7bit rest" and z: "rest \<noteq> [0]"
  show ?thesis
  proof (cases cs)
    case Nil
    with Cons b m z show ?thesis by simp
  next
    case (Cons d ds)
    with \<open>rest = c # cs\<close> b m show ?thesis by simp
  qed
qed

lemma encode_nonempty: "encode_7bit_int m \<noteq> []"
  by (subst encode_7bit_int_unfold) simp

lemma encode_minimal: "0 \<le> n \<Longrightarrow> minimal_7bit (encode_7bit_int n)"
proof (induction "nat n" arbitrary: n rule: less_induct)
  case less
  show ?case
  proof (cases "n \<ge> 0x80")
    case True
    then have smaller: "nat (drop_bit 7 n) < nat n" and pos: "1 \<le> drop_bit 7 n"
      by (simp_all add: drop_bit_eq_div)
    then have nonneg: "0 \<le> drop_bit 7 n" by simp
    have rest: "minimal_7bit (encode_7bit_int (drop_bit 7 n))"
      by (rule less.hyps [OF smaller nonneg])
    have nz: "encode_7bit_int (drop_bit 7 n) \<noteq> [0]"
    proof (cases "drop_bit 7 n \<ge> 0x80")
      case True
      then show ?thesis by (subst encode_7bit_int_unfold) (simp add: encode_nonempty)
    next
      case False
      with nonneg have "take_bit 7 (drop_bit 7 n) = drop_bit 7 n"
        by (simp add: take_bit_int_eq_self)
      moreover have "uint (word_of_int (take_bit 7 (drop_bit 7 n)) :: byte) = take_bit 7 (drop_bit 7 n)"
        by (rule uint_last_byte)
      ultimately have "uint (word_of_int (take_bit 7 (drop_bit 7 n)) :: byte) \<noteq> 0"
        using pos by simp
      then have "(word_of_int (take_bit 7 (drop_bit 7 n)) :: byte) \<noteq> 0"
        by auto
      with False show ?thesis by (subst encode_7bit_int_unfold) simp
    qed
    have flag: "uint (word_of_int (take_bit 7 n OR 0x80) :: byte) AND 0x80 \<noteq> 0"
      by (simp only: uint_cont_byte cont_high not_False_eq_True)
    have "encode_7bit_int n = word_of_int (take_bit 7 n OR 0x80) # encode_7bit_int (drop_bit 7 n)"
      using True by (subst encode_7bit_int_unfold) simp
    with minimal_cons [OF flag rest nz] show ?thesis by simp
  next
    case False
    with less.prems have small: "take_bit 7 n = n"
      by (simp add: take_bit_int_eq_self)
    have "uint (word_of_int n :: byte) = n"
      using uint_last_byte [of n] by (simp add: small)
    moreover have "n AND 0x80 = 0"
      using and128 [of n] by (simp add: small)
    ultimately show ?thesis
      using False by (subst encode_7bit_int_unfold) (simp add: small)
  qed
qed

text \<open>
  Among the valid sequences the minimal ones are exactly those the encoder gives back,
  since every sequence the encoder produces is minimal.
\<close>

lemma reencode_iff_minimal:
  assumes "valid_7bit b"
  shows "(\<exists>n. read_7bit_int b = Inr (n, []) \<and> encode_7bit_int n = b) \<longleftrightarrow> minimal_7bit b"
proof
  assume "\<exists>n. read_7bit_int b = Inr (n, []) \<and> encode_7bit_int n = b"
  then obtain n where r: "read_7bit_int b = Inr (n, [])" and e: "encode_7bit_int n = b"
    by blast
  have "read_7bit_int b = Inr (value_7bit b, [])"
    using read_valid [OF assms, of "[]" 0 0] by (simp add: read_7bit_int_def)
  with r have "n = value_7bit b" by simp
  then have "0 \<le> n" by (simp add: value_7bit_nonneg)
  then have "minimal_7bit (encode_7bit_int n)" by (rule encode_minimal)
  with e show "minimal_7bit b" by simp
next
  assume m: "minimal_7bit b"
  have "read_7bit_int b = Inr (value_7bit b, [])"
    using read_valid [OF assms, of "[]" 0 0] by (simp add: read_7bit_int_def)
  with encode_value [OF m] show "\<exists>n. read_7bit_int b = Inr (n, []) \<and> encode_7bit_int n = b"
    by blast
qed

text \<open>
  Claim C9, as amended. For every integer \<open>n \<ge> 0\<close>, reading the bytes the encoder
  produces for \<open>n\<close> gives \<open>n\<close> back and consumes exactly these bytes. For every
  byte sequence \<open>b\<close> in minimal form (every byte but the last has the continuation
  flag, the last has not, and a sequence of more than one byte does not end in a zero
  byte) the reader consumes all of \<open>b\<close> and encoding the number read gives \<open>b\<close> back.
\<close>

theorem seven_bit_roundtrip:
  "(0 \<le> n \<longrightarrow> read_7bit_int (encode_7bit_int n @ rest) = Inr (n, rest)) \<and>
   (minimal_7bit b \<longrightarrow>
      (\<exists>n. read_7bit_int b = Inr (n, []) \<and> encode_7bit_int n = b))"
proof (intro conjI impI)
  assume "0 \<le> n"
  then show "read_7bit_int (encode_7bit_int n @ rest) = Inr (n, rest)"
    using read_encoded [of n rest 0 0] by (simp add: read_7bit_int_def)
next
  assume m: "minimal_7bit b"
  then have "read_7bit_int b = Inr (value_7bit b, [])"
    using read_valid [OF minimal_valid, of b "[]" 0 0] by (simp add: read_7bit_int_def)
  with encode_value [OF m] show "\<exists>n. read_7bit_int b = Inr (n, []) \<and> encode_7bit_int n = b"
    by blast
qed

text \<open>
  Claim C9 at 16384, whose encoding is the three bytes 0x80, 0x80, 0x01, with the byte
  0xFF following in the stream.
\<close>

theorem seven_bit_roundtrip_witness:
  "(0::int) \<le> 16384 \<and>
   read_7bit_int (encode_7bit_int 16384 @ [0xFF]) = Inr (16384, [0xFF]) \<and>
   minimal_7bit [0x80, 0x80, 0x01] \<and>
   (\<exists>n. read_7bit_int [0x80, 0x80, 0x01] = Inr (n, []) \<and>
        encode_7bit_int n = [0x80, 0x80, 0x01])"
proof -
  have h1: "(0::int) \<le> 16384" by simp
  have h2: "minimal_7bit [0x80, 0x80, 0x01]" by simp
  show ?thesis
    using seven_bit_roundtrip [of 16384 "[0xFF]" "[0x80, 0x80, 0x01]"] h1 h2 by blast
qed

text \<open>
  Claim C9 as stated fails on a valid sequence that is not minimal: the bytes 0x80,
  0x00 are a continuation byte followed by a final byte, the reader takes them for 0,
  and 0 is encoded as the single byte 0x00.
\<close>

theorem seven_bit_reencode_differs:
  "valid_7bit [0x80, 0x00] \<and> read_7bit_int [0x80, 0x00] = Inr (0, []) \<and>
   encode_7bit_int 0 = [0x00] \<and> encode_7bit_int 0 \<noteq> [0x80, 0x00]"
  by (simp add: read_7bit_int_def encode_7bit_int_def encode_7bit_loop.simps)

section \<open>Waiting for a packet\<close>

lemma remove_futures_own:
  "set futs \<inter> set old = {} \<Longrightarrow> distinct mine \<Longrightarrow> set mine \<subseteq> set futs \<Longrightarrow>
     remove_futures futs (old @ mine) = old"
proof (induction futs arbitrary: mine)
  case Nil
  then show ?case by simp
next
  case (Cons f fs)
  show ?case
  proof (cases "f \<in> set mine")
    case True
    from Cons.prems have notold: "f \<notin> set old" by auto
    have "remove_futures (f # fs) (old @ mine) = remove_futures fs (old @ remove1 f mine)"
      using True notold by (simp add: remove1_append)
    also have "\<dots> = old"
    proof (rule Cons.IH)
      show "set fs \<inter> set old = {}" using Cons.prems by auto
      show "distinct (remove1 f mine)" using Cons.prems by simp
      show "set (remove1 f mine) \<subseteq> set fs" using Cons.prems by auto
    qed
    finally show ?thesis .
  next
    case False
    from Cons.prems have notold: "f \<notin> set old" by auto
    have "remove_futures (f # fs) (old @ mine) = remove_futures fs (old @ mine)"
      using False notold by simp
    also have "\<dots> = old"
    proof (rule Cons.IH)
      show "set fs \<inter> set old = {}" using Cons.prems by auto
      show "distinct mine" using Cons.prems by simp
      show "set mine \<subseteq> set fs" using Cons.prems False by auto
    qed
    finally show ?thesis .
  qed
qed

lemma cleanup_own:
  "waiters_get w k = old @ mine \<Longrightarrow> distinct mine \<Longrightarrow> set mine \<subseteq> set futs \<Longrightarrow>
   set futs \<inter> set old = {} \<Longrightarrow> (k \<notin> set ids \<longrightarrow> mine = []) \<Longrightarrow>
     waiters_get (cleanup ids futs w) k = old"
proof (induction ids arbitrary: w mine)
  case Nil
  then show ?case by simp
next
  case (Cons pid ids)
  let ?w' = "case w pid of None \<Rightarrow> w | Some ws \<Rightarrow> w(pid \<mapsto> remove_futures futs ws)"
  show ?case
  proof (cases "pid = k")
    case True
    have "waiters_get ?w' k = old @ []"
    proof (cases "w k")
      case None
      with Cons.prems(1) True show ?thesis by (simp add: waiters_get_def)
    next
      case (Some ws)
      with Cons.prems(1) have "ws = old @ mine" by (simp add: waiters_get_def)
      with Some True remove_futures_own [OF Cons.prems(4,2,3)]
      show ?thesis by (simp add: waiters_get_def)
    qed
    then have "waiters_get (cleanup ids futs ?w') k = old"
      by (rule Cons.IH) (use Cons.prems in simp_all)
    then show ?thesis by simp
  next
    case False
    then have "waiters_get ?w' k = old @ mine"
      using Cons.prems(1) by (simp add: waiters_get_def split: option.splits)
    then have "waiters_get (cleanup ids futs ?w') k = old"
      by (rule Cons.IH) (use Cons.prems False in auto)
    then show ?thesis by simp
  qed
qed

lemma register_loop_futs:
  "fst (register_loop ids c acc) = acc @ [next_future c ..< next_future c + length ids]"
proof (induction ids arbitrary: c acc)
  case Nil
  then show ?case by simp
next
  case (Cons pid ids)
  then show ?case by (simp add: Let_def upt_rec)
qed

lemma register_loop_next:
  "next_future (snd (register_loop ids c acc)) = next_future c + length ids"
  by (induction ids arbitrary: c acc) (simp_all add: Let_def)

lemma register_loop_futures:
  "futures (snd (register_loop ids c acc)) f =
     (if next_future c \<le> f \<and> f < next_future c + length ids then Pending else futures c f)"
  by (induction ids arbitrary: c acc) (auto simp add: Let_def)

lemma register_loop_waiters:
  "\<exists>mine. waiters_get (waiters (snd (register_loop ids c acc))) k = waiters_get (waiters c) k @ mine \<and>
      distinct mine \<and> set mine \<subseteq> {next_future c ..< next_future c + length ids} \<and>
      (k \<notin> set ids \<longrightarrow> mine = []) \<and> (k \<in> set ids \<longrightarrow> mine \<noteq> [])"
proof (induction ids arbitrary: c acc)
  case Nil
  then show ?case by simp
next
  case (Cons pid ids)
  let ?n = "next_future c"
  let ?c1 = "c\<lparr>futures := (futures c)(?n := Pending), next_future := Suc ?n,
                 waiters := (waiters c)(pid \<mapsto> waiters_get (waiters c) pid @ [?n])\<rparr>"
  let ?c' = "snd (register_loop ids ?c1 (acc @ [?n]))"
  have unfold: "snd (register_loop (pid # ids) c acc) = ?c'"
    by (simp add: Let_def)
  from Cons.IH [of ?c1 "acc @ [?n]"]
  obtain m where m0: "waiters_get (waiters ?c') k = waiters_get (waiters ?c1) k @ m \<and>
      distinct m \<and> set m \<subseteq> {next_future ?c1 ..< next_future ?c1 + length ids} \<and>
      (k \<notin> set ids \<longrightarrow> m = []) \<and> (k \<in> set ids \<longrightarrow> m \<noteq> [])"
    by (rule exE)
  then have m: "waiters_get (waiters ?c') k = waiters_get (waiters ?c1) k @ m"
      "distinct m" "set m \<subseteq> {Suc ?n ..< Suc ?n + length ids}"
      "k \<notin> set ids \<longrightarrow> m = []" "k \<in> set ids \<longrightarrow> m \<noteq> []"
    by simp_all
  show ?case
  proof (cases "k = pid")
    case True
    then have "waiters_get (waiters ?c') k = waiters_get (waiters c) k @ (?n # m)"
      using m(1) by (simp add: waiters_get_def)
    moreover have "distinct (?n # m)" using m(2,3) by auto
    moreover have "set (?n # m) \<subseteq> {?n ..< ?n + length (pid # ids)}" using m(3) by auto
    ultimately show ?thesis unfolding unfold using True by (intro exI [of _ "?n # m"]) simp
  next
    case False
    then have "waiters_get (waiters ?c') k = waiters_get (waiters c) k @ m"
      using m(1) by (simp add: waiters_get_def)
    moreover have "set m \<subseteq> {?n ..< ?n + length (pid # ids)}" using m(3) by auto
    ultimately show ?thesis unfolding unfold using m(2,4,5) False by (intro exI [of _ m]) simp
  qed
qed

lemma dispatch_waiter_waiters [simp]: "waiters (dispatch_waiter c pid pkt) = waiters c"
  by (simp add: dispatch_waiter_def)

lemma dispatch_all_waiters [simp]: "waiters (dispatch_all c msgs) = waiters c"
  by (induction c msgs rule: dispatch_all.induct) simp_all


lemma registry_ok_new: "registry_ok new_client"
  by (simp add: registry_ok_def new_client_def waiters_get_def)

lemma wait_for_cleanup_aux:
  assumes ok: "registry_ok c"
  shows "waiters_get (waiters (snd (wait_for_resume
             (dispatch_all (snd (wait_for_register c packet_id alt_ids)) msgs)
             packet_id alt_ids (fst (wait_for_register c packet_id alt_ids))))) k
         = waiters_get (waiters c) k"
proof -
  let ?ids = "packet_id # alt_ids"
  let ?n = "next_future c"
  let ?futs = "fst (register_loop ?ids c [])"
  let ?c1 = "snd (register_loop ?ids c [])"
  have futs: "?futs = [?n ..< ?n + length ?ids]"
    using register_loop_futs [of ?ids c "[]"] by simp
  obtain mine where mine: "waiters_get (waiters ?c1) k = waiters_get (waiters c) k @ mine"
      "distinct mine" "set mine \<subseteq> {?n ..< ?n + length ?ids}" "k \<notin> set ?ids \<longrightarrow> mine = []"
    using register_loop_waiters [of ?ids c "[]" k] by blast
  have disj: "set ?futs \<inter> set (waiters_get (waiters c) k) = {}"
    using ok unfolding futs registry_ok_def by fastforce
  have sub: "set mine \<subseteq> set ?futs"
    using mine(3) unfolding futs by auto
  have "waiters_get (cleanup ?ids ?futs (waiters ?c1)) k = waiters_get (waiters c) k"
    using mine(1,2) sub disj mine(4) by (rule cleanup_own)
  then show ?thesis
    by (simp add: wait_for_resume_def wait_for_register_def Let_def)
qed

lemma own_futures_gone:
  assumes ok: "registry_ok c"
  shows "set (fst (wait_for_register c packet_id alt_ids))
           \<inter> set (waiters_get (waiters c) k) = {}"
proof -
  have "fst (wait_for_register c packet_id alt_ids)
          = [next_future c ..< next_future c + length (packet_id # alt_ids)]"
    using register_loop_futs [of "packet_id # alt_ids" c "[]"]
    by (simp add: wait_for_register_def)
  then show ?thesis
    using ok unfolding registry_ok_def by fastforce
qed

lemma timeout_aux:
  "\<forall>f \<in> set futs. \<not> future_done (futures c f) \<Longrightarrow>
     fst (wait_for_resume c packet_id alt_ids futs) = [Inl TimeoutError]"
  by (simp add: wait_for_resume_def Let_def filter_empty_conv)

text \<open>
  Claim C2: a call of \<open>_wait_for\<close> registers one future for the primary id and one for
  every alternate id; whatever packets are dispatched while it waits, when it resumes
  the futures it created are removed again, so for every packet id the list of
  registered waiters is the one from before the call and holds none of the call's
  futures. This is so when the call returns a packet and when it times out; when none
  of its futures is done at resumption, the outcome is \<open>TimeoutError\<close>.
\<close>

theorem wait_for_cleanup:
  assumes "registry_ok c"
  shows "(let (futs, c1) = wait_for_register c packet_id alt_ids;
              c2 = dispatch_all c1 msgs;
              (outcome, c3) = wait_for_resume c2 packet_id alt_ids futs
          in (\<forall>k. waiters_get (waiters c3) k = waiters_get (waiters c) k) \<and>
             (\<forall>k. set futs \<inter> set (waiters_get (waiters c3) k) = {}) \<and>
             ((\<forall>f \<in> set futs. \<not> future_done (futures c2 f))
                \<longrightarrow> outcome = [Inl TimeoutError]))"
  using wait_for_cleanup_aux [OF assms, of packet_id alt_ids msgs]
    own_futures_gone [OF assms, of packet_id alt_ids]
    timeout_aux [of "fst (wait_for_register c packet_id alt_ids)"
       "dispatch_all (snd (wait_for_register c packet_id alt_ids)) msgs" packet_id alt_ids]
  by (simp add: split_beta Let_def)

text \<open>
  Claim C2 on a new client: a wait for kind 7 with the alternates 8 and 9, during
  which only a packet of kind 5 arrives, times out and leaves no waiter behind.
\<close>

theorem wait_for_cleanup_witness:
  "registry_ok (new_client :: string MirClient) \<and>
   (let (futs, c1) = wait_for_register (new_client :: string MirClient) 7 [8, 9];
        c2 = dispatch_all c1 [(5, ''other'')];
        (outcome, c3) = wait_for_resume c2 7 [8, 9] futs
    in futs = [0, 1, 2] \<and>
       \<not> future_done (futures c2 0) \<and> \<not> future_done (futures c2 1) \<and>
       \<not> future_done (futures c2 2) \<and>
       waiters_get (waiters c3) = waiters_get (waiters (new_client :: string MirClient)) \<and>
       set futs \<inter> set (waiters_get (waiters c3) 7) = {} \<and>
       outcome = [Inl TimeoutError])"
proof -
  let ?c = "new_client :: string MirClient"
  let ?c2 = "dispatch_all (snd (wait_for_register ?c 7 [8, 9])) [(5, ''other'')]"
  let ?r = "wait_for_resume ?c2 7 [8, 9] [0, 1, 2]"
  have ok: "registry_ok ?c"
    by (rule registry_ok_new)
  have futs: "fst (wait_for_register ?c 7 [8, 9]) = [0, 1, 2]"
    by (simp add: wait_for_register_def new_client_def Let_def)
  have pending: "\<not> future_done (futures ?c2 0)" "\<not> future_done (futures ?c2 1)"
    "\<not> future_done (futures ?c2 2)"
    by (simp_all add: wait_for_register_def new_client_def Let_def waiters_get_def
        dispatch_waiter_def future_done_def)
  then have all_pending: "\<forall>f \<in> set [0, 1, 2]. \<not> future_done (futures ?c2 f)"
    by simp
  have t: "(\<forall>k. waiters_get (waiters (snd ?r)) k = waiters_get (waiters ?c) k) \<and>
      (\<forall>k. set [0, 1, 2] \<inter> set (waiters_get (waiters (snd ?r)) k) = {}) \<and>
      ((\<forall>f \<in> set [0, 1, 2]. \<not> future_done (futures ?c2 f)) \<longrightarrow> fst ?r = [Inl TimeoutError])"
    by (rule wait_for_cleanup [OF ok, of 7 "[8, 9]" "[(5, ''other'')]",
          unfolded Let_def split_beta futs])
  have same: "waiters_get (waiters (snd ?r)) = waiters_get (waiters ?c)"
    using t by (intro ext) blast
  have gone: "set [0, 1, 2] \<inter> set (waiters_get (waiters (snd ?r)) 7) = {}"
    using t by blast
  have out: "fst ?r = [Inl TimeoutError]"
    using t all_pending by blast
  show ?thesis
    unfolding Let_def split_beta futs
    using ok pending same gone out by blast
qed

text \<open>The registry invariant is kept by every operation on the client.\<close>

lemma remove_futures_subset: "set (remove_futures futs ws) \<subseteq> set ws"
proof (induction futs arbitrary: ws)
  case Nil
  then show ?case by simp
next
  case (Cons f futs)
  have "set (remove_futures futs (if f \<in> set ws then remove1 f ws else ws))
          \<subseteq> set (if f \<in> set ws then remove1 f ws else ws)"
    by (rule Cons.IH)
  also have "\<dots> \<subseteq> set ws"
    using set_remove1_subset [of f ws] by simp
  finally show ?case by simp
qed

lemma cleanup_subset: "set (waiters_get (cleanup ids futs w) k) \<subseteq> set (waiters_get w k)"
proof (induction ids arbitrary: w)
  case Nil
  then show ?case by simp
next
  case (Cons pid ids)
  let ?w' = "case w pid of None \<Rightarrow> w | Some ws \<Rightarrow> w(pid \<mapsto> remove_futures futs ws)"
  have "set (waiters_get (cleanup ids futs ?w') k) \<subseteq> set (waiters_get ?w' k)"
    by (rule Cons.IH)
  also have "\<dots> \<subseteq> set (waiters_get w k)"
    using remove_futures_subset by (auto simp add: waiters_get_def split: option.splits)
  finally show ?case by simp
qed

lemma registry_ok_register:
  assumes "registry_ok c"
  shows "registry_ok (snd (wait_for_register c k alts))"
proof -
  let ?ids = "k # alts"
  let ?c' = "snd (register_loop ?ids c [])"
  have "f < next_future ?c'" if f: "f \<in> set (waiters_get (waiters ?c') pid)" for pid f
  proof -
    obtain mine where mine: "waiters_get (waiters ?c') pid = waiters_get (waiters c) pid @ mine"
        "set mine \<subseteq> {next_future c ..< next_future c + length ?ids}"
      using register_loop_waiters [of ?ids c "[]" pid] by blast
    have nxt: "next_future ?c' = next_future c + length ?ids"
      by (rule register_loop_next)
    from f mine(1) consider "f \<in> set (waiters_get (waiters c) pid)" | "f \<in> set mine"
      by auto
    then show ?thesis
    proof cases
      case 1
      with assms have "f < next_future c" by (auto simp add: registry_ok_def)
      then show ?thesis by (simp only: nxt)
    next
      case 2
      with mine(2) show ?thesis by (simp only: nxt) auto
    qed
  qed
  then show ?thesis
    by (simp add: registry_ok_def wait_for_register_def)
qed

lemma registry_ok_dispatch: "registry_ok (dispatch_waiter c pid pkt) = registry_ok c"
  by (simp add: registry_ok_def dispatch_waiter_def)

lemma registry_ok_resume:
  assumes "registry_ok c"
  shows "registry_ok (snd (wait_for_resume c k alts futs))"
  using assms cleanup_subset [of "k # alts" futs "waiters c"]
  by (fastforce simp add: registry_ok_def wait_for_resume_def Let_def)

lemma set_results_done:
  "future_done (fs f) \<Longrightarrow> set_results l pkt fs f = fs f"
  by (induction l arbitrary: fs) (auto simp add: future_done_def)

lemma set_results_pending:
  "f \<in> set l \<Longrightarrow> \<not> future_done (fs f) \<Longrightarrow> set_results l pkt fs f = Result pkt"
proof (induction l arbitrary: fs)
  case Nil
  then show ?case by simp
next
  case (Cons g l)
  show ?case
  proof (cases "g = f")
    case True
    then have "set_results (g # l) pkt fs f = set_results l pkt (fs(f := Result pkt)) f"
      using Cons.prems by simp
    also have "\<dots> = (fs(f := Result pkt)) f"
      by (rule set_results_done) (simp add: future_done_def)
    finally show ?thesis by simp
  next
    case False
    then have "f \<in> set l" using Cons.prems by simp
    moreover have "\<not> future_done ((if \<not> future_done (fs g) then fs(g := Result pkt) else fs) f)"
      using False Cons.prems by simp
    ultimately show ?thesis
      using Cons.IH by simp
  qed
qed

lemma dispatch_waiter_done:
  "future_done (futures c f) \<Longrightarrow> futures (dispatch_waiter c pid pkt) f = futures c f"
  by (simp add: dispatch_waiter_def set_results_done)

lemma dispatch_all_done:
  "future_done (futures c f) \<Longrightarrow> futures (dispatch_all c msgs) f = futures c f"
proof (induction c msgs rule: dispatch_all.induct)
  case (1 c)
  then show ?case by simp
next
  case (2 c pid pkt rest)
  then show ?case by (simp add: dispatch_waiter_done)
qed

lemma cancel_all_done:
  "future_done (fs f) \<Longrightarrow> cancel_all l fs f = fs f"
  by (induction l arbitrary: fs) (auto simp add: future_done_def)

lemma resume_keeps_done:
  "future_done (futures c f) \<Longrightarrow> futures (snd (wait_for_resume c k alts futs)) f = futures c f"
  by (simp add: wait_for_resume_def Let_def cancel_all_done)

lemma resume_outcome_member:
  "f \<in> set futs \<Longrightarrow> futures c f = Result m \<Longrightarrow> Inr m \<in> set (fst (wait_for_resume c k alts futs))"
proof -
  assume f: "f \<in> set futs" and r: "futures c f = Result m"
  then have d: "future_done (futures c f)" by (simp add: future_done_def)
  with f have mem: "f \<in> set (filter (\<lambda>f. future_done (futures c f)) futs)" by simp
  then have ne: "filter (\<lambda>f. future_done (futures c f)) futs \<noteq> []"
    by (metis empty_iff list.set(1))
  have "future_result (cancel_all (filter (\<lambda>f. \<not> future_done (futures c f)) futs) (futures c) f) = Inr m"
    using d r by (simp add: cancel_all_done future_result_def)
  with mem ne show ?thesis
    by (force simp add: wait_for_resume_def Let_def)
qed

lemma resume_outcome_single:
  "futures c f = Result m \<Longrightarrow> fst (wait_for_resume c k alts [f]) = [Inr m]"
  by (simp add: wait_for_resume_def Let_def future_done_def future_result_def)


lemma register_futs:
  "fst (wait_for_register c k alts) = next_future c # [Suc (next_future c) ..< next_future c + Suc (length alts)]"
  using register_loop_futs [of "k # alts" c "[]"]
  by (simp add: wait_for_register_def upt_conv_Cons del: upt_Suc)

lemma register_hd: "hd (fst (wait_for_register c k alts)) = next_future c"
  by (simp only: register_futs list.sel)

lemma register_single: "fst (wait_for_register c k []) = [next_future c]"
  by (simp add: register_futs)

lemma register_next:
  "next_future (snd (wait_for_register c k alts)) = next_future c + Suc (length alts)"
  using register_loop_next [of "k # alts" c "[]"] by (simp add: wait_for_register_def)

lemma register_new_pending:
  "futures (snd (wait_for_register c k alts)) (next_future c) = Pending"
  using register_loop_futures [of "k # alts" c "[]" "next_future c"]
  by (simp add: wait_for_register_def)

lemma register_mem:
  "next_future c \<in> set (waiters_get (waiters (snd (wait_for_register c k alts))) k)"
proof -
  let ?n = "next_future c"
  let ?c1 = "c\<lparr>futures := (futures c)(?n := Pending), next_future := Suc ?n,
                 waiters := (waiters c)(k \<mapsto> waiters_get (waiters c) k @ [?n])\<rparr>"
  have step: "snd (wait_for_register c k alts) = snd (register_loop alts ?c1 ([] @ [?n]))"
    by (simp add: wait_for_register_def Let_def)
  obtain mine where "waiters_get (waiters (snd (register_loop alts ?c1 ([] @ [?n])))) k
      = waiters_get (waiters ?c1) k @ mine"
    using register_loop_waiters [of alts ?c1 "[] @ [?n]" k] by blast
  then show ?thesis
    by (simp add: step waiters_get_def)
qed

lemma register_keeps:
  "f \<in> set (waiters_get (waiters c) k') \<Longrightarrow>
     f \<in> set (waiters_get (waiters (snd (wait_for_register c k alts))) k')"
proof -
  assume f: "f \<in> set (waiters_get (waiters c) k')"
  obtain mine where "waiters_get (waiters (snd (register_loop (k # alts) c []))) k'
      = waiters_get (waiters c) k' @ mine"
    using register_loop_waiters [of "k # alts" c "[]" k'] by blast
  with f show ?thesis by (simp add: wait_for_register_def)
qed

lemma register_pending:
  "futures c f = Pending \<Longrightarrow> futures (snd (wait_for_register c k alts)) f = Pending"
  using register_loop_futures [of "k # alts" c "[]" f] by (simp add: wait_for_register_def)

text \<open>
  Claim C1, as amended. Two calls of \<open>_wait_for\<close> for the same kind get a future each,
  and the two futures differ. The first packet of that kind that is dispatched
  fulfils both of them, every waiter registered for the kind at that moment; whatever
  packets follow, each future keeps the first packet as its result, so no waiter is
  fulfilled twice. When the calls resume, the first packet is a possible outcome of
  each of them, and the only outcome of a call without alternate kinds.
\<close>

theorem two_waiters_same_kind:
  "(let (futs_a, ca) = wait_for_register c k alts_a;
        (futs_b, cb) = wait_for_register ca k alts_b;
        c1 = dispatch_waiter cb k m1;
        c2 = dispatch_all c1 msgs;
        (out_a, c3) = wait_for_resume c2 k alts_a futs_a;
        (out_b, c4) = wait_for_resume c3 k alts_b futs_b
    in hd futs_a \<noteq> hd futs_b \<and>
       futures c1 (hd futs_a) = Result m1 \<and> futures c1 (hd futs_b) = Result m1 \<and>
       futures c2 (hd futs_a) = Result m1 \<and> futures c2 (hd futs_b) = Result m1 \<and>
       Inr m1 \<in> set out_a \<and> Inr m1 \<in> set out_b \<and>
       (alts_a = [] \<longrightarrow> out_a = [Inr m1]) \<and> (alts_b = [] \<longrightarrow> out_b = [Inr m1]))"
proof -
  let ?fa = "next_future c"
  let ?futs_a = "fst (wait_for_register c k alts_a)"
  let ?ca = "snd (wait_for_register c k alts_a)"
  let ?fb = "next_future ?ca"
  let ?futs_b = "fst (wait_for_register ?ca k alts_b)"
  let ?cb = "snd (wait_for_register ?ca k alts_b)"
  let ?c1 = "dispatch_waiter ?cb k m1"
  let ?c2 = "dispatch_all ?c1 msgs"
  let ?out_a = "fst (wait_for_resume ?c2 k alts_a ?futs_a)"
  let ?c3 = "snd (wait_for_resume ?c2 k alts_a ?futs_a)"
  let ?out_b = "fst (wait_for_resume ?c3 k alts_b ?futs_b)"
  have hda: "hd ?futs_a = ?fa" and hdb: "hd ?futs_b = ?fb"
    by (rule register_hd)+
  have ne: "?fa \<noteq> ?fb" by (simp add: register_next)
  have fa_in: "?fa \<in> set (waiters_get (waiters ?cb) k)"
    by (intro register_keeps register_mem)
  have fb_in: "?fb \<in> set (waiters_get (waiters ?cb) k)"
    by (rule register_mem)
  have fa_p: "futures ?cb ?fa = Pending"
    by (intro register_pending register_new_pending)
  have fb_p: "futures ?cb ?fb = Pending"
    by (rule register_new_pending)
  have a1: "futures ?c1 ?fa = Result m1"
    using fa_in fa_p by (simp add: dispatch_waiter_def set_results_pending future_done_def)
  have b1: "futures ?c1 ?fb = Result m1"
    using fb_in fb_p by (simp add: dispatch_waiter_def set_results_pending future_done_def)
  have a2: "futures ?c2 ?fa = Result m1"
    using a1 dispatch_all_done [of ?c1 ?fa msgs] by (simp add: future_done_def)
  have b2: "futures ?c2 ?fb = Result m1"
    using b1 dispatch_all_done [of ?c1 ?fb msgs] by (simp add: future_done_def)
  have b3: "futures ?c3 ?fb = Result m1"
    using b2 resume_keeps_done [of ?c2 ?fb k alts_a ?futs_a] by (simp add: future_done_def)
  have fa_mem: "?fa \<in> set ?futs_a" by (simp add: register_futs del: upt_Suc)
  have fb_mem: "?fb \<in> set ?futs_b" by (simp add: register_futs del: upt_Suc)
  have oa: "Inr m1 \<in> set ?out_a"
    using fa_mem a2 by (rule resume_outcome_member)
  have ob: "Inr m1 \<in> set ?out_b"
    using fb_mem b3 by (rule resume_outcome_member)
  have sa: "alts_a = [] \<longrightarrow> ?out_a = [Inr m1]"
  proof
    assume e: "alts_a = []"
    then have "?futs_a = [?fa]" by (simp add: register_single)
    then show "?out_a = [Inr m1]" using a2 resume_outcome_single [of ?c2 ?fa m1 k alts_a] by simp
  qed
  have sb: "alts_b = [] \<longrightarrow> ?out_b = [Inr m1]"
  proof
    assume e: "alts_b = []"
    then have "?futs_b = [?fb]" by (simp add: register_single)
    then show "?out_b = [Inr m1]" using b3 resume_outcome_single [of ?c3 ?fb m1 k alts_b] by simp
  qed
  show ?thesis
    using ne a1 b1 a2 b2 oa ob sa sb
    by (simp add: split_beta Let_def hda hdb)
qed



text \<open>
  Claim C1 on a new client: two waits for kind 7 without alternates, then the packets
  \<open>first\<close> and \<open>second\<close> of kind 7.
\<close>

theorem two_waiters_same_kind_witness:
  "([] :: int list) = [] \<and>
   hd (fst (wait_for_register (new_client :: string MirClient) 7 []))
     \<noteq> hd (fst (wait_for_register (snd (wait_for_register (new_client :: string MirClient) 7 [])) 7 [])) \<and>
   futures (dispatch_waiter two_waiters 7 ''first'')
     (hd (fst (wait_for_register (new_client :: string MirClient) 7 []))) = Result ''first'' \<and>
   futures (dispatch_waiter two_waiters 7 ''first'')
     (hd (fst (wait_for_register (snd (wait_for_register (new_client :: string MirClient) 7 [])) 7 [])))
     = Result ''first'' \<and>
   futures (dispatch_all (dispatch_waiter two_waiters 7 ''first'') [(7, ''second'')])
     (hd (fst (wait_for_register (new_client :: string MirClient) 7 []))) = Result ''first'' \<and>
   futures (dispatch_all (dispatch_waiter two_waiters 7 ''first'') [(7, ''second'')])
     (hd (fst (wait_for_register (snd (wait_for_register (new_client :: string MirClient) 7 [])) 7 [])))
     = Result ''first'' \<and>
   fst (wait_for_resume (dispatch_all (dispatch_waiter two_waiters 7 ''first'') [(7, ''second'')])
          7 [] (fst (wait_for_register (new_client :: string MirClient) 7 []))) = [Inr ''first''] \<and>
   fst (wait_for_resume
          (snd (wait_for_resume
                  (dispatch_all (dispatch_waiter two_waiters 7 ''first'') [(7, ''second'')])
                  7 [] (fst (wait_for_register (new_client :: string MirClient) 7 []))))
          7 [] (fst (wait_for_register (snd (wait_for_register (new_client :: string MirClient) 7 [])) 7 [])))
     = [Inr ''first'']"
  using two_waiters_same_kind [of "new_client :: string MirClient" 7 "[]" "[]" "''first''"
      "[(7, ''second'')]"]
  by (simp add: split_beta Let_def two_waiters_def)

text \<open>
  Claim C1 as stated fails: with two waiters registered for kind 7, the packet
  \<open>first\<close> fulfils both futures, the packet \<open>second\<close> fulfils none, and both calls
  return \<open>first\<close>.
\<close>

theorem two_waiters_both_get_first_packet:
  "fst (wait_for_register (new_client :: string MirClient) 7 []) = [0] \<and>
   fst (wait_for_register (snd (wait_for_register (new_client :: string MirClient) 7 [])) 7 []) = [1] \<and>
   waiters_get (waiters two_waiters) 7 = [0, 1] \<and>
   futures (dispatch_waiter two_waiters 7 ''first'') 0 = Result ''first'' \<and>
   futures (dispatch_waiter two_waiters 7 ''first'') 1 = Result ''first'' \<and>
   futures two_waiters_two_packets 0 = Result ''first'' \<and>
   futures two_waiters_two_packets 1 = Result ''first'' \<and>
   fst (wait_for_resume two_waiters_two_packets 7 [] [0]) = [Inr ''first''] \<and>
   fst (wait_for_resume (snd (wait_for_resume two_waiters_two_packets 7 [] [0])) 7 [] [1])
     = [Inr ''first''] \<and>
   fst (wait_for_resume (snd (wait_for_resume two_waiters_two_packets 7 [] [0])) 7 [] [1])
     \<noteq> [Inr ''second'']"
  by (simp add: two_waiters_two_packets_def two_waiters_def wait_for_register_def
        new_client_def Let_def waiters_get_def dispatch_waiter_def future_done_def
        wait_for_resume_def future_result_def)

section \<open>Dispatch and the receive loop\<close>

declare receive_loop.simps [simp del]

lemma frame_step:
  assumes "connected c" "reader c" "4 \<le> frame_length stream" "nat (frame_length stream) \<le> length stream"
  shows "receive_loop sp gz run c stream =
    (case parse_server_packet sp gz (frame_packet_id stream) (frame_payload stream) of
       Inl e \<Rightarrow> emit [Warning_parse_failed (frame_packet_id stream) e] (receive_loop sp gz run c (frame_rest stream))
     | Inr None \<Rightarrow> emit [Debug_unknown (frame_packet_id stream) (length (frame_payload stream))] (receive_loop sp gz run c (frame_rest stream))
     | Inr (Some pkt) \<Rightarrow> emit (Debug_received pkt # dispatch run c (frame_packet_id stream) pkt) (receive_loop sp gz run c (frame_rest stream)))"
proof -
  let ?n = "frame_length stream"
  have len: "2 \<le> length stream" "\<not> length stream - 2 < nat (?n - 2)"
    using assms(3,4) by linarith+
  have rem: "nat (?n - 2) = nat ?n - 2" using assms(3) by linarith
  have body0: "take (nat (?n - 2)) (drop 2 stream) ! 0 = stream ! 2"
    using assms(3,4) by (simp add: rem)
  have body1: "take (nat (?n - 2)) (drop 2 stream) ! 1 = stream ! 3"
    using assms(3,4) by (simp add: rem)
  have n22: "nat ?n - 2 + 2 = nat ?n" using assms(3) by linarith
  have "take (nat ?n - 2) (drop 2 stream) = drop 2 (take (nat ?n) stream)"
    by (simp only: take_drop n22)
  then have payload: "drop 2 (take (nat (?n - 2)) (drop 2 stream)) = frame_payload stream"
    by (simp add: frame_payload_def rem)
  have "drop (nat ?n - 2) (drop 2 stream) = drop (nat ?n - 2 + 2) stream"
    by (simp only: drop_drop)
  then have rest: "drop (nat (?n - 2)) (drop 2 stream) = frame_rest stream"
    by (simp only: frame_rest_def rem n22)
  show ?thesis
    using assms(1,2,3) len
    apply (subst receive_loop.simps)
    apply (simp only: Let_def body0 body1 payload rest frame_length_def [symmetric] frame_packet_id_def [symmetric])
    apply simp
    done
qed





lemma open_connection_flags: "connected open_connection" "reader open_connection"
  by (simp_all add: open_connection_def new_connection_def)

lemmas frame_eval = frame_length_def frame_packet_id_def frame_payload_def frame_rest_def
  unpack_H_def unpack_h_def

text \<open>
  A stream of four frames: a length of 3, a frame of kind 1 the decoder rejects, a
  frame of the unknown kind 9, and a frame of kind 1 that decodes. The loop logs the
  first three, receives the fourth and ends when the stream is exhausted.
\<close>

lemma receive_loop_example_trace:
  "fst (receive_loop example_packets no_gzip quiet open_connection
          [3, 0, 4, 0, 1, 0, 5, 0, 9, 0, 0xAA, 5, 0, 1, 0, 0xBB])
     = [Warning_invalid_length 3, Warning_parse_failed 1 StructError, Debug_unknown 9 1,
        Debug_received ''decoded'', Info_closed]"
  by (simp add: receive_loop.simps open_connection_def new_connection_def dispatch_def
        handlers_get_def unpack_H_def unpack_h_def parse_server_packet_def
        example_packets_def emit_def loop_finally_def Let_def)

text \<open>
  Claim C7: in a connected receive loop, a frame whose declared length is below 4 is
  logged and the loop goes on with the bytes after the two length bytes, on the same,
  still connected, connection; a frame whose payload the catalogue fails to decode is
  logged and the loop goes on after the frame; for a frame whose kind is not in the
  catalogue \<open>parse_server_packet\<close> returns \<open>None\<close>, the frame is logged as unknown and
  the loop goes on after it.
\<close>

theorem receive_loop_frame_errors:
  assumes "connected c" and "reader c"
  shows
    "(2 \<le> length stream \<and> frame_length stream < 4 \<longrightarrow>
        receive_loop sp gz run c stream
          = emit [Warning_invalid_length (frame_length stream)]
              (receive_loop sp gz run c (drop 2 stream))) \<and>
     (4 \<le> frame_length stream \<and> nat (frame_length stream) \<le> length stream \<longrightarrow>
        (\<forall>e. parse_server_packet sp gz (frame_packet_id stream) (frame_payload stream) = Inl e \<longrightarrow>
           receive_loop sp gz run c stream
             = emit [Warning_parse_failed (frame_packet_id stream) e]
                 (receive_loop sp gz run c (frame_rest stream))) \<and>
        (sp (frame_packet_id stream) = None \<longrightarrow>
           parse_server_packet sp gz (frame_packet_id stream) (frame_payload stream) = Inr None \<and>
           receive_loop sp gz run c stream
             = emit [Debug_unknown (frame_packet_id stream) (length (frame_payload stream))]
                 (receive_loop sp gz run c (frame_rest stream))))"
proof (intro conjI impI allI)
  assume "2 \<le> length stream \<and> frame_length stream < 4"
  then show "receive_loop sp gz run c stream
          = emit [Warning_invalid_length (frame_length stream)]
              (receive_loop sp gz run c (drop 2 stream))"
    using assms by (subst receive_loop.simps) (simp add: frame_length_def)
next
  fix e
  assume "4 \<le> frame_length stream \<and> nat (frame_length stream) \<le> length stream"
    and "parse_server_packet sp gz (frame_packet_id stream) (frame_payload stream) = Inl e"
  then show "receive_loop sp gz run c stream
             = emit [Warning_parse_failed (frame_packet_id stream) e]
                 (receive_loop sp gz run c (frame_rest stream))"
    using frame_step [OF assms, of stream sp gz run] by simp
next
  assume "sp (frame_packet_id stream) = None"
  then show "parse_server_packet sp gz (frame_packet_id stream) (frame_payload stream) = Inr None"
    by (simp add: parse_server_packet_def)
next
  assume "4 \<le> frame_length stream \<and> nat (frame_length stream) \<le> length stream"
    and "sp (frame_packet_id stream) = None"
  then show "receive_loop sp gz run c stream
             = emit [Debug_unknown (frame_packet_id stream) (length (frame_payload stream))]
                 (receive_loop sp gz run c (frame_rest stream))"
    using frame_step [OF assms, of stream sp gz run] by (simp add: parse_server_packet_def)
qed

text \<open>
  Claim C7 on three streams: one starting with the length 3, one starting with a
  frame of kind 1 with an empty payload, which the decoder of kind 1 rejects, and one
  starting with a frame of the unknown kind 9.
\<close>

theorem receive_loop_frame_errors_witness:
  "connected open_connection \<and> reader open_connection \<and>
   (2::nat) \<le> length [3, 0, 4, 0, 1, 0 :: byte] \<and> frame_length [3, 0, 4, 0, 1, 0] < 4 \<and>
   receive_loop example_packets no_gzip quiet open_connection [3, 0, 4, 0, 1, 0]
     = emit [Warning_invalid_length 3]
         (receive_loop example_packets no_gzip quiet open_connection [4, 0, 1, 0]) \<and>
   4 \<le> frame_length [4, 0, 1, 0, 5, 0] \<and>
   nat (frame_length [4, 0, 1, 0, 5, 0]) \<le> length [4, 0, 1, 0, 5, 0 :: byte] \<and>
   parse_server_packet example_packets no_gzip 1 [] = Inl StructError \<and>
   receive_loop example_packets no_gzip quiet open_connection [4, 0, 1, 0, 5, 0]
     = emit [Warning_parse_failed 1 StructError]
         (receive_loop example_packets no_gzip quiet open_connection [5, 0]) \<and>
   4 \<le> frame_length [5, 0, 9, 0, 0xAA, 7] \<and>
   nat (frame_length [5, 0, 9, 0, 0xAA, 7]) \<le> length [5, 0, 9, 0, 0xAA, 7 :: byte] \<and>
   example_packets 9 = None \<and>
   parse_server_packet example_packets no_gzip 9 [0xAA] = Inr None \<and>
   receive_loop example_packets no_gzip quiet open_connection [5, 0, 9, 0, 0xAA, 7]
     = emit [Debug_unknown 9 1]
         (receive_loop example_packets no_gzip quiet open_connection [7])"
proof -
  let ?s1 = "[3, 0, 4, 0, 1, 0] :: byte list"
  let ?s2 = "[4, 0, 1, 0, 5, 0] :: byte list"
  let ?s3 = "[5, 0, 9, 0, 0xAA, 7] :: byte list"
  have a1: "2 \<le> length ?s1 \<and> frame_length ?s1 < 4" and v1: "frame_length ?s1 = 3"
    and d1: "drop 2 ?s1 = [4, 0, 1, 0]"
    by (simp_all add: frame_eval)
  have a2: "4 \<le> frame_length ?s2 \<and> nat (frame_length ?s2) \<le> length ?s2"
    and i2: "frame_packet_id ?s2 = 1" and p2: "frame_payload ?s2 = []"
    and r2: "frame_rest ?s2 = [5, 0]"
    by (simp_all add: frame_eval)
  have e2: "parse_server_packet example_packets no_gzip 1 [] = Inl StructError"
    by (simp add: parse_server_packet_def example_packets_def)
  have a3: "4 \<le> frame_length ?s3 \<and> nat (frame_length ?s3) \<le> length ?s3"
    and i3: "frame_packet_id ?s3 = 9" and p3: "frame_payload ?s3 = [0xAA]"
    and r3: "frame_rest ?s3 = [7]"
    by (simp_all add: frame_eval)
  have n3: "example_packets 9 = None"
    by (simp add: example_packets_def)
  note t = receive_loop_frame_errors [OF open_connection_flags,
      where sp = example_packets and gz = no_gzip and run = quiet]
  have u1: "receive_loop example_packets no_gzip quiet open_connection ?s1
     = emit [Warning_invalid_length 3]
         (receive_loop example_packets no_gzip quiet open_connection [4, 0, 1, 0])"
    using t [of ?s1] a1 by (simp only: v1 d1)
  have u2: "receive_loop example_packets no_gzip quiet open_connection ?s2
     = emit [Warning_parse_failed 1 StructError]
         (receive_loop example_packets no_gzip quiet open_connection [5, 0])"
    using t [of ?s2] a2 e2 by (simp only: i2 p2 r2)
  have u3: "parse_server_packet example_packets no_gzip 9 [0xAA] = Inr None \<and>
     receive_loop example_packets no_gzip quiet open_connection ?s3
     = emit [Debug_unknown 9 1]
         (receive_loop example_packets no_gzip quiet open_connection [7])"
    using t [of ?s3] a3 n3 by (simp add: i3 p3 r3)
  show ?thesis
    using open_connection_flags a1 a2 a3 e2 n3 u1 u2 u3 by blast
qed





section \<open>Disconnect\<close>

lemma cancel_twice: "cancel_and_await (fst (cancel_and_await t)) = cancel_and_await t
  \<and> except_CancelledError (snd (cancel_and_await t)) = None"
  by (cases t) (simp_all add: except_CancelledError_def)

lemma disconnect_once:
  assumes "w \<noteq> Some CancelledError"
  shows "disconnect w c =
     Inr (c\<lparr>connected := False, disconnect_event := True,
            keepalive_task := map_option (fst \<circ> cancel_and_await) (keepalive_task c),
            receive_task := map_option (fst \<circ> cancel_and_await) (receive_task c),
            reader := False, writer := False\<rparr>)"
  using assms
  by (cases "keepalive_task c"; cases "receive_task c")
     (simp_all add: disconnect_def cancel_twice except_Exception_def Let_def)


lemma disconnect_again:
  assumes "w1 \<noteq> Some CancelledError" and "w2 \<noteq> Some CancelledError"
    and "disconnect w1 c = Inr c1"
  shows "disconnect w2 c1 = Inr c1"
proof -
  have c1: "c1 = c\<lparr>connected := False, disconnect_event := True,
            keepalive_task := map_option (fst \<circ> cancel_and_await) (keepalive_task c),
            receive_task := map_option (fst \<circ> cancel_and_await) (receive_task c),
            reader := False, writer := False\<rparr>"
    using assms(3) disconnect_once [OF assms(1), of c] by simp
  have k: "map_option (fst \<circ> cancel_and_await) (keepalive_task c1) = keepalive_task c1"
    by (cases "keepalive_task c") (simp_all add: c1 cancel_twice)
  have r: "map_option (fst \<circ> cancel_and_await) (receive_task c1) = receive_task c1"
    by (cases "receive_task c") (simp_all add: c1 cancel_twice)
  have "disconnect w2 c1 = Inr (c1\<lparr>connected := False, disconnect_event := True,
            keepalive_task := keepalive_task c1, receive_task := receive_task c1,
            reader := False, writer := False\<rparr>)"
    using disconnect_once [OF assms(2), of c1] by (simp only: k r)
  also have "\<dots> = Inr c1"
    by (simp add: c1)
  finally show ?thesis .
qed

lemma disconnect_twice:
  assumes "w1 \<noteq> Some CancelledError" and "w2 \<noteq> Some CancelledError"
  shows "\<exists>c1. disconnect w1 c = Inr c1 \<and> \<not> connected c1 \<and>
               wait_disconnect c1 = Returns_at_once \<and> disconnect w2 c1 = Inr c1"
proof -
  obtain c1 where d: "disconnect w1 c = Inr c1"
    and f: "\<not> connected c1" "wait_disconnect c1 = Returns_at_once"
    using disconnect_once [OF assms(1), of c] by (simp add: wait_disconnect_def)
  from disconnect_again [OF assms d] d f show ?thesis by blast
qed

text \<open>
  Claim C8: provided the calling task is not itself cancelled while it waits for the
  stream to close, \<open>disconnect\<close> returns without raising, whatever state the connection
  and its two tasks are in, and leaves \<open>connected\<close> false and the disconnect event set,
  so that \<open>wait_disconnect\<close> returns at once; a second call right after it again
  returns without raising and changes nothing. The same holds of a connection whose
  receive loop has ended because the peer closed the stream.
\<close>

theorem disconnect_idempotent:
  assumes "w1 \<noteq> Some CancelledError" and "w2 \<noteq> Some CancelledError"
  shows "(\<exists>c1. disconnect w1 c = Inr c1 \<and> \<not> connected c1 \<and>
               wait_disconnect c1 = Returns_at_once \<and> disconnect w2 c1 = Inr c1) \<and>
         (\<exists>c1. disconnect w1 (peer_closed c) = Inr c1 \<and> \<not> connected c1 \<and>
               wait_disconnect c1 = Returns_at_once \<and> disconnect w2 c1 = Inr c1)"
  using disconnect_twice [OF assms, of c] disconnect_twice [OF assms, of "peer_closed c"]
  by blast

text \<open>
  Claim C8 on an open connection with both loops running, and on the same connection
  after the peer closed the stream, with \<open>wait_closed\<close> raising \<open>OSError\<close> in the first
  call.
\<close>

theorem disconnect_idempotent_witness:
  "Some OSError \<noteq> Some CancelledError \<and> (None :: py_exception option) \<noteq> Some CancelledError \<and>
   (\<exists>c1. disconnect (Some OSError) open_connection = Inr c1 \<and> \<not> connected c1 \<and>
         wait_disconnect c1 = Returns_at_once \<and> disconnect None c1 = Inr c1) \<and>
   (\<exists>c1. disconnect (Some OSError) (peer_closed open_connection) = Inr c1 \<and>
         \<not> connected c1 \<and> wait_disconnect c1 = Returns_at_once \<and>
         disconnect None c1 = Inr c1)"
proof -
  have h1: "Some OSError \<noteq> Some CancelledError" by simp
  have h2: "(None :: py_exception option) \<noteq> Some CancelledError" by simp
  show ?thesis
    using disconnect_idempotent [OF h1 h2, of open_connection] h1 h2 by blast
qed

end
